theory Spec2Isabelle
  imports Complex_Main
begin

section \<open>Values of the host language\<close>

text \<open>
  Strings are byte lists. The user-facing messages of the source are Chinese; they are
  written here as their UTF-8 bytes, with an English gloss beside each. Only equality and
  emptiness of messages are ever used.
\<close>

text \<open>Decimal rendering of a non-negative integer, as a template literal produces it.\<close>

definition digit_char :: "nat \<Rightarrow> char" where
  "digit_char d = ''0123456789'' ! d"

function show_nat :: "nat \<Rightarrow> string" where
  "show_nat n = (if n < 10 then [digit_char n] else show_nat (n div 10) @ [digit_char (n mod 10)])"
  by pat_completeness auto
termination
  by (relation "measure (\<lambda>n. n)") auto

declare show_nat.simps [simp del]

text \<open>A thrown value: an \<open>Error\<close> object with its message, or anything else.\<close>

datatype thrown = ErrorObject string | OtherValue

text \<open>What an awaited promise does: it resolves with a value or rejects with a thrown value.\<close>

datatype 'a outcome = Resolves 'a | Rejects thrown

text \<open>\<open>error instanceof Error ? error.message : fallback\<close>\<close>

fun message_or :: "thrown \<Rightarrow> string \<Rightarrow> string" where
  "message_or (ErrorObject m) fallback = m"
| "message_or OtherValue fallback = fallback"

text \<open>\<open>s || fallback\<close> on an optional string: absent and empty strings are falsy.\<close>

fun or_else :: "string option \<Rightarrow> string \<Rightarrow> string" where
  "or_else None fallback = fallback"
| "or_else (Some s) fallback = (if s = [] then fallback else s)"

text \<open>Truthiness of an optional string, as in \<open>error ? 'error' : 'pending'\<close>.\<close>

fun truthy_str :: "string option \<Rightarrow> bool" where
  "truthy_str None = False"
| "truthy_str (Some s) = (s \<noteq> [])"

text \<open>Parsed JSON values, their truthiness, and reading the property \<open>ai_content\<close>.\<close>

datatype json =
    JNull
  | JBool bool
  | JNumber rat
  | JString string
  | JArray "json list"
  | JObject "(string \<times> json) list"

fun truthy :: "json \<Rightarrow> bool" where
  "truthy JNull = False"
| "truthy (JBool b) = b"
| "truthy (JNumber n) = (n \<noteq> 0)"
| "truthy (JString s) = (s \<noteq> [])"
| "truthy (JArray xs) = True"
| "truthy (JObject kvs) = True"

section \<open>The messages of the source\<close>

definition msg_unsupported_type :: string where
  \<comment> \<open>"Unsupported file type. Please upload a PDF, an image, a Word document or a text file."\<close>
  "msg_unsupported_type =
     [CHR 0xE4, CHR 0xB8, CHR 0x8D, CHR 0xE6, CHR 0x94, CHR 0xAF, CHR 0xE6, CHR 0x8C, CHR 0x81,
      CHR 0xE7, CHR 0x9A, CHR 0x84, CHR 0xE6, CHR 0x96, CHR 0x87, CHR 0xE4, CHR 0xBB, CHR 0xB6,
      CHR 0xE7, CHR 0xB1, CHR 0xBB, CHR 0xE5, CHR 0x9E, CHR 0x8B, CHR 0xE3, CHR 0x80, CHR 0x82,
      CHR 0xE8, CHR 0xAF, CHR 0xB7, CHR 0xE4, CHR 0xB8, CHR 0x8A, CHR 0xE4, CHR 0xBC, CHR 0xA0]
     @ ''PDF'' @
     [CHR 0xE3, CHR 0x80, CHR 0x81, CHR 0xE5, CHR 0x9B, CHR 0xBE, CHR 0xE7, CHR 0x89, CHR 0x87,
      CHR 0xE3, CHR 0x80, CHR 0x81]
     @ ''Word'' @
     [CHR 0xE6, CHR 0x96, CHR 0x87, CHR 0xE6, CHR 0xA1, CHR 0xA3, CHR 0xE6, CHR 0x88, CHR 0x96,
      CHR 0xE6, CHR 0x96, CHR 0x87, CHR 0xE6, CHR 0x9C, CHR 0xAC, CHR 0xE6, CHR 0x96, CHR 0x87,
      CHR 0xE4, CHR 0xBB, CHR 0xB6, CHR 0xE3, CHR 0x80, CHR 0x82]"

definition msg_too_large :: string where
  \<comment> \<open>"The file size must not exceed 50MB"\<close>
  "msg_too_large =
     [CHR 0xE6, CHR 0x96, CHR 0x87, CHR 0xE4, CHR 0xBB, CHR 0xB6, CHR 0xE5, CHR 0xA4, CHR 0xA7,
      CHR 0xE5, CHR 0xB0, CHR 0x8F, CHR 0xE4, CHR 0xB8, CHR 0x8D, CHR 0xE8, CHR 0x83, CHR 0xBD,
      CHR 0xE8, CHR 0xB6, CHR 0x85, CHR 0xE8, CHR 0xBF, CHR 0x87]
     @ ''50MB''"

definition msg_upload_failed :: string where
  \<comment> \<open>"Upload failed"\<close>
  "msg_upload_failed =
     [CHR 0xE4, CHR 0xB8, CHR 0x8A, CHR 0xE4, CHR 0xBC, CHR 0xA0, CHR 0xE5, CHR 0xA4, CHR 0xB1,
      CHR 0xE8, CHR 0xB4, CHR 0xA5]"

definition msg_not_logged_in :: string where
  \<comment> \<open>"The user is not logged in"\<close>
  "msg_not_logged_in =
     [CHR 0xE7, CHR 0x94, CHR 0xA8, CHR 0xE6, CHR 0x88, CHR 0xB7, CHR 0xE6, CHR 0x9C, CHR 0xAA,
      CHR 0xE7, CHR 0x99, CHR 0xBB, CHR 0xE5, CHR 0xBD, CHR 0x95]"

definition msg_n8n_call_failed :: string where
  \<comment> \<open>"n8n call failed: "\<close>
  "msg_n8n_call_failed =
     ''n8n'' @
     [CHR 0xE8, CHR 0xB0, CHR 0x83, CHR 0xE7, CHR 0x94, CHR 0xA8, CHR 0xE5, CHR 0xA4, CHR 0xB1,
      CHR 0xE8, CHR 0xB4, CHR 0xA5]
     @ '': ''"

definition msg_unknown_error :: string where
  \<comment> \<open>"Unknown error"\<close>
  "msg_unknown_error =
     [CHR 0xE6, CHR 0x9C, CHR 0xAA, CHR 0xE7, CHR 0x9F, CHR 0xA5, CHR 0xE9, CHR 0x94, CHR 0x99,
      CHR 0xE8, CHR 0xAF, CHR 0xAF]"

definition msg_file_upload_failed :: string where
  \<comment> \<open>"File upload failed"\<close>
  "msg_file_upload_failed =
     [CHR 0xE6, CHR 0x96, CHR 0x87, CHR 0xE4, CHR 0xBB, CHR 0xB6, CHR 0xE4, CHR 0xB8, CHR 0x8A,
      CHR 0xE4, CHR 0xBC, CHR 0xA0, CHR 0xE5, CHR 0xA4, CHR 0xB1, CHR 0xE8, CHR 0xB4, CHR 0xA5]"

definition msg_get_projects_failed :: string where
  \<comment> \<open>"Fetching the projects failed: "\<close>
  "msg_get_projects_failed =
     [CHR 0xE8, CHR 0x8E, CHR 0xB7, CHR 0xE5, CHR 0x8F, CHR 0x96, CHR 0xE9, CHR 0xA1, CHR 0xB9,
      CHR 0xE7, CHR 0x9B, CHR 0xAE, CHR 0xE5, CHR 0xA4, CHR 0xB1, CHR 0xE8, CHR 0xB4, CHR 0xA5]
     @ '': ''"

section \<open>The upload dialog: data\<close>

text \<open>A browser \<open>File\<close>: the three properties the dialog reads.\<close>

record File =
  name :: string
  size_f :: nat
  type_f :: string

datatype status = Pending | Uploading | Success | Error

record UploadFile =
  file_uf :: File
  id_uf :: string
  status :: status
  progress :: int
  error_uf :: "string option"
  title :: string

text \<open>
  An interval timer created by \<open>setInterval\<close>: its handle, the entry id its callback
  closes over, and its period in milliseconds.
\<close>

record interval =
  handle :: nat
  target :: string
  delay :: nat

text \<open>
  The state of the dialog: the \<open>uploadFiles\<close> list held by \<open>useState\<close>, the interval
  timers that are still running, and the next handle \<open>setInterval\<close> will hand out.
  Each functional update \<open>setUploadFiles(prev => ...)\<close> is applied to the current list, in
  the order the updates are queued.
\<close>

record component =
  uploadFiles :: "UploadFile list"
  intervals :: "interval list"
  nextHandle :: nat

definition initial :: component where
  "initial = \<lparr>uploadFiles = [], intervals = [], nextHandle = 1\<rparr>"

section \<open>The upload dialog: operations\<close>

definition acceptedTypes :: "string list" where
  "acceptedTypes =
     [''application/pdf'',
      ''image/jpeg'',
      ''image/png'',
      ''image/gif'',
      ''application/msword'',
      ''application/vnd.openxmlformats-officedocument.wordprocessingml.document'',
      ''text/plain'']"

definition validateFile :: "File \<Rightarrow> string option" where
  "validateFile f =
     (if type_f f \<notin> set acceptedTypes then Some msg_unsupported_type
      else if size_f f > 50 * 1024 * 1024 then Some msg_too_large
      else None)"

text \<open>
  One selected file together with what the environment returns while its entry is built:
  the value of \<open>Date.now()\<close> and the text that the template literal produces for the
  value of \<open>Math.random()\<close>.
\<close>

type_synonym selection = "File \<times> nat \<times> string"

fun newEntry :: "selection \<Rightarrow> UploadFile" where
  "newEntry (f, now, rnd) =
     (let error = validateFile f
      in \<lparr>file_uf = f,
          id_uf = show_nat now @ ''-'' @ rnd,
          status = (if truthy_str error then Error else Pending),
          progress = 0,
          error_uf = error,
          title = name f\<rparr>)"

definition handleFiles :: "selection list \<Rightarrow> component \<Rightarrow> component" where
  "handleFiles files c = c\<lparr>uploadFiles := uploadFiles c @ map newEntry files\<rparr>"

text \<open>
  \<open>uploadFile\<close> is asynchronous. Its part before the \<open>await\<close> marks the entry and starts
  the progress timer; the timer's callback is \<open>progressTick\<close>; the part after the
  \<open>await\<close> is \<open>uploadFile_resume\<close>, run with what the awaited call did.
\<close>

definition uploadFile_start :: "component \<Rightarrow> UploadFile \<Rightarrow> component \<times> nat" where
  "uploadFile_start c uf =
     (c\<lparr>uploadFiles :=
          map (\<lambda>f. if id_uf f = id_uf uf then f\<lparr>status := Uploading, progress := 0\<rparr> else f)
              (uploadFiles c),
        intervals := intervals c @ [\<lparr>handle = nextHandle c, target = id_uf uf, delay = 300\<rparr>],
        nextHandle := nextHandle c + 1\<rparr>,
      nextHandle c)"

text \<open>One firing of the timer with handle \<open>h\<close>; a timer that was cleared does not fire.\<close>

definition progressTick :: "component \<Rightarrow> nat \<Rightarrow> component" where
  "progressTick c h =
     (case find (\<lambda>t. handle t = h) (intervals c) of
        None \<Rightarrow> c
      | Some t \<Rightarrow>
          c\<lparr>uploadFiles :=
               map (\<lambda>f. if id_uf f = target t \<and> progress f < 90
                        then f\<lparr>progress := progress f + 10\<rparr> else f)
                   (uploadFiles c)\<rparr>)"

definition clearInterval :: "nat \<Rightarrow> component \<Rightarrow> component" where
  "clearInterval h c = c\<lparr>intervals := filter (\<lambda>t. handle t \<noteq> h) (intervals c)\<rparr>"

text \<open>The \<open>catch\<close> block of \<open>uploadFile\<close>.\<close>

definition uploadFile_catch :: "component \<Rightarrow> UploadFile \<Rightarrow> thrown \<Rightarrow> component" where
  "uploadFile_catch c uf e =
     c\<lparr>uploadFiles :=
          map (\<lambda>f. if id_uf f = id_uf uf
                   then f\<lparr>status := Error, progress := 0,
                          error_uf := Some (message_or e msg_upload_failed)\<rparr>
                   else f)
              (uploadFiles c)\<rparr>"

text \<open>
  The continuation of \<open>uploadFile\<close> after \<open>await uploadDocumentToN8n(...)\<close>, for the
  timer handle \<open>h\<close> held in \<open>progressInterval\<close>. \<open>clearInterval\<close> sits inside the
  \<open>try\<close> block after the \<open>await\<close>, so a rejected promise reaches the \<open>catch\<close> block
  without it.
\<close>

record N8nChatResponse =
  success :: bool
  response :: "json option"
  error :: "string option"

definition uploadFile_resume ::
  "component \<Rightarrow> UploadFile \<Rightarrow> nat \<Rightarrow> N8nChatResponse outcome \<Rightarrow> component" where
  "uploadFile_resume c uf h awaited =
     (case awaited of
        Rejects e \<Rightarrow> uploadFile_catch c uf e
      | Resolves result \<Rightarrow>
          (let c1 = clearInterval h c
           in if success result
              then c1\<lparr>uploadFiles :=
                        map (\<lambda>f. if id_uf f = id_uf uf
                                 then f\<lparr>status := Success, progress := 100\<rparr> else f)
                            (uploadFiles c1)\<rparr>
              else uploadFile_catch c1 uf (ErrorObject (or_else (error result) msg_upload_failed))))"

text \<open>
  \<open>startUpload\<close>: \<open>pendingFiles.forEach(uploadFile)\<close> runs the part of \<open>uploadFile\<close> before
  its \<open>await\<close> for each pending entry in turn. The result also lists the attempts now in
  flight, each with the entry it was called with and its timer handle.
\<close>

fun forEach_uploadFile ::
  "component \<Rightarrow> UploadFile list \<Rightarrow> component \<times> (UploadFile \<times> nat) list" where
  "forEach_uploadFile c [] = (c, [])"
| "forEach_uploadFile c (uf # ufs) =
     (let (c1, h) = uploadFile_start c uf;
          (c2, hs) = forEach_uploadFile c1 ufs
      in (c2, (uf, h) # hs))"

definition startUpload :: "component \<Rightarrow> component \<times> (UploadFile \<times> nat) list" where
  "startUpload c =
     (let pendingFiles = filter (\<lambda>f. status f = Pending) (uploadFiles c)
      in forEach_uploadFile c pendingFiles)"

definition removeFile :: "string \<Rightarrow> component \<Rightarrow> component" where
  "removeFile i c = c\<lparr>uploadFiles := filter (\<lambda>f. id_uf f \<noteq> i) (uploadFiles c)\<rparr>"

definition updateFileTitle :: "string \<Rightarrow> string \<Rightarrow> component \<Rightarrow> component" where
  "updateFileTitle i newTitle c =
     c\<lparr>uploadFiles :=
          map (\<lambda>f. if id_uf f = i then f\<lparr>title := newTitle\<rparr> else f) (uploadFiles c)\<rparr>"

text \<open>The title input of an entry is rendered with this \<open>disabled\<close> attribute.\<close>

definition title_disabled :: "UploadFile \<Rightarrow> bool" where
  "title_disabled f = (status f = Uploading \<or> status f = Success)"

text \<open>Derived values of the render function.\<close>

definition pendingCount :: "component \<Rightarrow> nat" where
  "pendingCount c = length (filter (\<lambda>f. status f = Pending) (uploadFiles c))"

definition allCompleted :: "component \<Rightarrow> bool" where
  "allCompleted c =
     (length (uploadFiles c) > 0 \<and>
      list_all (\<lambda>f. status f = Success \<or> status f = Error) (uploadFiles c))"

definition hasSuccess :: "component \<Rightarrow> bool" where
  "hasSuccess c = list_ex (\<lambda>f. status f = Success) (uploadFiles c)"

text \<open>
  Everything that can happen to the dialog, as one step function. \<open>Resume\<close> carries the
  entry and the handle of the attempt that continues, and what its awaited call did.
\<close>

datatype event =
    Enqueue "selection list"
  | StartUpload
  | Tick nat
  | Resume UploadFile nat "N8nChatResponse outcome"
  | Remove string
  | UpdateTitle string string

fun step :: "component \<Rightarrow> event \<Rightarrow> component" where
  "step c (Enqueue files) = handleFiles files c"
| "step c StartUpload = fst (startUpload c)"
| "step c (Tick h) = progressTick c h"
| "step c (Resume uf h awaited) = uploadFile_resume c uf h awaited"
| "step c (Remove i) = removeFile i c"
| "step c (UpdateTitle i newTitle) = updateFileTitle i newTitle c"

section \<open>The client functions of \<open>lib/n8n.ts\<close>\<close>

text \<open>
  The functions are asynchronous and talk to the identity provider, the workflow webhook
  and the database. The environment record holds what each awaited call does; every
  function returns the outcome of its promise together with the calls it made, in order.
\<close>

record User =
  id_user :: string

datatype projectIds = OneProject string | ManyProjects "string list"

record Response =
  ok :: bool
  status_r :: nat
  statusText :: string
  text_r :: "string outcome"

record UserProject =
  id_p :: string
  name_p :: string

record chat_row =
  content :: string
  ai_content :: string
  role :: string
  agent_type :: string
  project_id :: "string option"
  user_id :: string
  metadata_project_ids :: "string list"

datatype call =
    ImportSupabase
  | AuthGetUser
  | FetchChat string string projectIds string
  | FetchUpload string File string string string
  | SelectProjects string
  | InsertChatHistory chat_row

record env =
  DEV :: bool
  import_supabase :: "unit outcome"
  auth_getUser :: "User option outcome"
  fetch :: "Response outcome"
  JSON_parse :: "string \<Rightarrow> json option"
  select_projects :: "(UserProject list option \<times> string option) outcome"
  insert_chat_history :: "string option outcome"

definition N8N_WEBHOOK_URL :: "bool \<Rightarrow> string" where
  "N8N_WEBHOOK_URL dev =
     (if dev then ''/api/n8n/webhook/1afe3c51-e81d-477b-b3e6-0686bc772534''
      else ''https://n8n.aifunbox.com/webhook/1afe3c51-e81d-477b-b3e6-0686bc772534'')"

definition uploadUrl :: "bool \<Rightarrow> string" where
  "uploadUrl dev =
     (if dev then ''/api/n8n/webhook/upload-document''
      else ''https://n8n.aifunbox.com/webhook/upload-document'')"

text \<open>
  The response text as the chat function cleans it: the \<open>ai_content\<close> property of the
  parsed JSON when it is truthy, the parsed value when it is a string, the raw text
  otherwise (also when parsing throws, or when reading a property of \<open>null\<close> throws).
  \<open>JSON.parse\<close> is a parameter (\<open>None\<close> when it throws); an object it returns
  lists each of its properties once.
\<close>

fun get_ai_content :: "json \<Rightarrow> json option" where
  "get_ai_content (JObject kvs) = map_of kvs ''ai_content''"
| "get_ai_content j = None"

fun string_or_raw :: "json \<Rightarrow> string \<Rightarrow> json" where
  "string_or_raw (JString s) raw = JString s"
| "string_or_raw j raw = JString raw"

definition cleanResponse :: "(string \<Rightarrow> json option) \<Rightarrow> string \<Rightarrow> json" where
  "cleanResponse parse result =
     (case parse result of
        None \<Rightarrow> JString result
      | Some JNull \<Rightarrow> JString result
      | Some jsonResponse \<Rightarrow>
          (case get_ai_content jsonResponse of
             Some v \<Rightarrow> if truthy v then v else string_or_raw jsonResponse result
           | None \<Rightarrow> string_or_raw jsonResponse result))"

text \<open>The result object every \<open>catch\<close> block of the two webhook functions builds.\<close>

definition failed :: "thrown \<Rightarrow> string \<Rightarrow> N8nChatResponse" where
  "failed e fallback = \<lparr>success = False, response = None, error = Some (message_or e fallback)\<rparr>"

text \<open>\<open>callN8nRAGAgent\<close>: the \<open>try\<close> block, then the function with its \<open>catch\<close>.\<close>

definition callN8nRAGAgent_try ::
  "env \<Rightarrow> string \<Rightarrow> projectIds \<Rightarrow> (thrown + N8nChatResponse) \<times> call list" where
  "callN8nRAGAgent_try e chatInput projectId =
     (case import_supabase e of
        Rejects x \<Rightarrow> (Inl x, [ImportSupabase])
      | Resolves u \<Rightarrow>
     (case auth_getUser e of
        Rejects x \<Rightarrow> (Inl x, [ImportSupabase, AuthGetUser])
      | Resolves None \<Rightarrow> (Inl (ErrorObject msg_not_logged_in), [ImportSupabase, AuthGetUser])
      | Resolves (Some user) \<Rightarrow>
     (let calls = [ImportSupabase, AuthGetUser,
                   FetchChat (N8N_WEBHOOK_URL (DEV e)) chatInput projectId (id_user user)]
      in case fetch e of
        Rejects x \<Rightarrow> (Inl x, calls)
      | Resolves r \<Rightarrow>
          if \<not> ok r
          then (Inl (ErrorObject
                  (msg_n8n_call_failed @ show_nat (status_r r) @ '' '' @ statusText r)), calls)
          else
     (case text_r r of
        Rejects x \<Rightarrow> (Inl x, calls)
      | Resolves result \<Rightarrow>
          (Inr \<lparr>success = True,
                response = Some (cleanResponse (JSON_parse e) result),
                error = None\<rparr>, calls)))))"

definition callN8nRAGAgent ::
  "env \<Rightarrow> string \<Rightarrow> projectIds \<Rightarrow> N8nChatResponse outcome \<times> call list" where
  "callN8nRAGAgent e chatInput projectId =
     (case callN8nRAGAgent_try e chatInput projectId of
        (Inr result, calls) \<Rightarrow> (Resolves result, calls)
      | (Inl x, calls) \<Rightarrow> (Resolves (failed x msg_unknown_error), calls))"

text \<open>\<open>getUserProjects\<close>\<close>

definition getUserProjects_try :: "env \<Rightarrow> (thrown + UserProject list) \<times> call list" where
  "getUserProjects_try e =
     (case import_supabase e of
        Rejects x \<Rightarrow> (Inl x, [ImportSupabase])
      | Resolves u \<Rightarrow>
     (case auth_getUser e of
        Rejects x \<Rightarrow> (Inl x, [ImportSupabase, AuthGetUser])
      | Resolves None \<Rightarrow> (Inl (ErrorObject msg_not_logged_in), [ImportSupabase, AuthGetUser])
      | Resolves (Some user) \<Rightarrow>
     (let calls = [ImportSupabase, AuthGetUser, SelectProjects (id_user user)]
      in case select_projects e of
        Rejects x \<Rightarrow> (Inl x, calls)
      | Resolves (projects, Some m) \<Rightarrow> (Inl (ErrorObject (msg_get_projects_failed @ m)), calls)
      | Resolves (None, None) \<Rightarrow> (Inr [], calls)
      | Resolves (Some ps, None) \<Rightarrow> (Inr ps, calls))))"

definition getUserProjects :: "env \<Rightarrow> UserProject list outcome \<times> call list" where
  "getUserProjects e =
     (case getUserProjects_try e of
        (Inr ps, calls) \<Rightarrow> (Resolves ps, calls)
      | (Inl x, calls) \<Rightarrow> (Resolves [], calls))"

text \<open>\<open>uploadDocumentToN8n\<close>\<close>

definition uploadDocumentToN8n_try ::
  "env \<Rightarrow> File \<Rightarrow> string \<Rightarrow> string \<Rightarrow> string \<Rightarrow> (thrown + N8nChatResponse) \<times> call list" where
  "uploadDocumentToN8n_try e f projectId title' userId =
     (let calls = [FetchUpload (uploadUrl (DEV e)) f projectId userId title']
      in case fetch e of
        Rejects x \<Rightarrow> (Inl x, calls)
      | Resolves r \<Rightarrow>
     (case text_r r of
        Rejects x \<Rightarrow> (Inl x, calls)
      | Resolves result \<Rightarrow>
          if ok r \<or> (status_r r = 500 \<and> result \<noteq> [])
          then (Inr \<lparr>success = True, response = Some (JString result), error = None\<rparr>, calls)
          else (Inl (ErrorObject
                  (msg_file_upload_failed @ '': '' @ show_nat (status_r r) @ '' '' @ statusText r)),
                calls)))"

definition uploadDocumentToN8n ::
  "env \<Rightarrow> File \<Rightarrow> string \<Rightarrow> string \<Rightarrow> string \<Rightarrow> N8nChatResponse outcome \<times> call list" where
  "uploadDocumentToN8n e f projectId title' userId =
     (case uploadDocumentToN8n_try e f projectId title' userId of
        (Inr result, calls) \<Rightarrow> (Resolves result, calls)
      | (Inl x, calls) \<Rightarrow> (Resolves (failed x msg_file_upload_failed), calls))"

text \<open>
  \<open>saveChatRecord\<close>. \<open>projectId[0]\<close> of an empty array is \<open>undefined\<close>, here \<open>None\<close>.
  A reported insert error is only logged.
\<close>

fun first_project :: "projectIds \<Rightarrow> string option" where
  "first_project (OneProject p) = Some p"
| "first_project (ManyProjects []) = None"
| "first_project (ManyProjects (p # ps)) = Some p"

fun all_projects :: "projectIds \<Rightarrow> string list" where
  "all_projects (OneProject p) = [p]"
| "all_projects (ManyProjects ps) = ps"

definition saveChatRecord_try ::
  "env \<Rightarrow> string \<Rightarrow> string \<Rightarrow> projectIds \<Rightarrow> (thrown + unit) \<times> call list" where
  "saveChatRecord_try e userMessage aiResponse projectId =
     (case import_supabase e of
        Rejects x \<Rightarrow> (Inl x, [ImportSupabase])
      | Resolves u \<Rightarrow>
     (case auth_getUser e of
        Rejects x \<Rightarrow> (Inl x, [ImportSupabase, AuthGetUser])
      | Resolves None \<Rightarrow> (Inr (), [ImportSupabase, AuthGetUser])
      | Resolves (Some user) \<Rightarrow>
     (let calls = [ImportSupabase, AuthGetUser,
                   InsertChatHistory
                     \<lparr>content = userMessage,
                      ai_content = aiResponse,
                      role = ''user'',
                      agent_type = ''project_agent'',
                      project_id = first_project projectId,
                      user_id = id_user user,
                      metadata_project_ids = all_projects projectId\<rparr>]
      in case insert_chat_history e of
        Rejects x \<Rightarrow> (Inl x, calls)
      | Resolves err \<Rightarrow> (Inr (), calls))))"

definition saveChatRecord ::
  "env \<Rightarrow> string \<Rightarrow> string \<Rightarrow> projectIds \<Rightarrow> unit outcome \<times> call list" where
  "saveChatRecord e userMessage aiResponse projectId =
     (case saveChatRecord_try e userMessage aiResponse projectId of
        (Inr u, calls) \<Rightarrow> (Resolves (), calls)
      | (Inl x, calls) \<Rightarrow> (Resolves (), calls))"

text \<open>The calls that send or use the user's identity.\<close>

fun needs_identity :: "call \<Rightarrow> bool" where
  "needs_identity ImportSupabase = False"
| "needs_identity AuthGetUser = False"
| "needs_identity (FetchChat url chatInput projectId userId) = True"
| "needs_identity (FetchUpload url f projectId userId title') = True"
| "needs_identity (SelectProjects userId) = True"
| "needs_identity (InsertChatHistory row) = True"

section \<open>One upload attempt from start to end\<close>

text \<open>
  \<open>uploadFile\<close> for one entry, with the number of times its timer fires while the call
  to \<open>uploadDocumentToN8n\<close> is awaited.
\<close>

fun ticks :: "nat \<Rightarrow> nat \<Rightarrow> component \<Rightarrow> component" where
  "ticks 0 h c = c"
| "ticks (Suc n) h c = ticks n h (progressTick c h)"

definition uploadFile ::
  "env \<Rightarrow> string \<Rightarrow> string \<Rightarrow> nat \<Rightarrow> component \<Rightarrow> UploadFile \<Rightarrow> component" where
  "uploadFile e projectId userId n c uf =
     (let (c1, h) = uploadFile_start c uf;
          c2 = ticks n h c1;
          awaited = fst (uploadDocumentToN8n e (file_uf uf) projectId (title uf) userId)
      in uploadFile_resume c2 uf h awaited)"

section \<open>Notions used to state the properties\<close>

text \<open>
  Passing validation, in the words of the specification: the media type is in the
  allow-list and the size is at most 50 MiB.
\<close>

definition passes_validation :: "File \<Rightarrow> bool" where
  "passes_validation f = (type_f f \<in> set acceptedTypes \<and> size_f f \<le> 50 * 1024 * 1024)"

text \<open>A sequence of calls of \<open>handleFiles\<close>, one per batch of selected files.\<close>

definition enqueue_all :: "selection list list \<Rightarrow> component \<Rightarrow> component" where
  "enqueue_all batches c = foldl (\<lambda>c files. handleFiles files c) c batches"

text \<open>Example files: a PDF of 60 MiB, a PNG of 2 MiB and a text file of 1 MiB.\<close>

definition pdf60 :: File where
  "pdf60 = \<lparr>name = ''big.pdf'', size_f = 60 * 1024 * 1024, type_f = ''application/pdf''\<rparr>"

definition png2 :: File where
  "png2 = \<lparr>name = ''a.png'', size_f = 2 * 1024 * 1024, type_f = ''image/png''\<rparr>"

definition txt1 :: File where
  "txt1 = \<lparr>name = ''notes.txt'', size_f = 1024 * 1024, type_f = ''text/plain''\<rparr>"

text \<open>Reading a decimal rendering back, to show that \<open>show_nat\<close> loses nothing.\<close>

definition digit_val :: "char \<Rightarrow> nat" where
  "digit_val ch = of_char ch - 48"

definition read_nat :: "string \<Rightarrow> nat" where
  "read_nat s = foldl (\<lambda>a ch. 10 * a + digit_val ch) 0 s"

text \<open>
  The id of a new entry as a function of what was drawn for it: the clock reading and
  the random text.
\<close>

definition entry_id :: "nat \<times> string \<Rightarrow> string" where
  "entry_id d = show_nat (fst d) @ ''-'' @ snd d"

text \<open>What an event draws from the clock and the random source.\<close>

fun draws_of :: "event \<Rightarrow> (nat \<times> string) list" where
  "draws_of (Enqueue files) = map snd files"
| "draws_of ev = []"

text \<open>A history of the dialog: the events in the order they happen.\<close>

definition run :: "component \<Rightarrow> event list \<Rightarrow> component" where
  "run c evs = foldl step c evs"

text \<open>
  Two example states, each after one call of \<open>handleFiles\<close> with a valid PNG and an
  oversized PDF: with different random draws, and with the same clock reading and the
  same random draw.
\<close>

definition distinct_instants :: component where
  "distinct_instants = handleFiles [(png2, 1000, ''0.5''), (pdf60, 1000, ''0.7'')] initial"

text \<open>The ids of the entries, in list order.\<close>

definition ids :: "component \<Rightarrow> string list" where
  "ids c = map id_uf (uploadFiles c)"

definition same_instant :: component where
  "same_instant = handleFiles [(png2, 1000, ''0.5''), (pdf60, 1000, ''0.5'')] initial"

text \<open>
  Example environments: every call succeeds; the upload request is rejected with an
  \<open>Error\<close> whose message is empty; the upload request is rejected with a message.
\<close>

definition env_ok :: env where
  "env_ok =
     \<lparr>DEV = False,
      import_supabase = Resolves (),
      auth_getUser = Resolves (Some \<lparr>id_user = ''u1''\<rparr>),
      fetch = Resolves \<lparr>ok = True, status_r = 200, statusText = ''OK'', text_r = Resolves ''done''\<rparr>,
      JSON_parse = (\<lambda>s. None),
      select_projects = Resolves (Some [], None),
      insert_chat_history = Resolves None\<rparr>"

definition env_empty_message :: env where
  "env_empty_message = env_ok\<lparr>fetch := Rejects (ErrorObject [])\<rparr>"

definition env_offline :: env where
  "env_offline = env_ok\<lparr>fetch := Rejects (ErrorObject ''Failed to fetch'')\<rparr>"


text \<open>An example history: one PNG is enqueued and uploaded with success.\<close>

definition uploaded :: component where
  "uploaded =
     run initial
       [Enqueue [(png2, 1000, ''0.5'')],
        StartUpload,
        Resume (newEntry (png2, 1000, ''0.5'')) 1
          (Resolves \<lparr>success = True, response = Some (JString ''done''), error = None\<rparr>)]"


text \<open>
  More example environments: no user is signed in; the webhook answers 500 with a body;
  the webhook answers 404 with a body.
\<close>

definition env_signed_out :: env where
  "env_signed_out = env_ok\<lparr>auth_getUser := Resolves None\<rparr>"

definition response_500 :: Response where
  "response_500 =
     \<lparr>ok = False, status_r = 500, statusText = ''Internal Server Error'',
      text_r = Resolves ''Workflow executed''\<rparr>"

definition response_404 :: Response where
  "response_404 =
     \<lparr>ok = False, status_r = 404, statusText = ''Not Found'',
      text_r = Resolves ''webhook not registered''\<rparr>"

definition env_500 :: env where
  "env_500 = env_ok\<lparr>fetch := Resolves response_500\<rparr>"

definition env_404 :: env where
  "env_404 = env_ok\<lparr>fetch := Resolves response_404\<rparr>"

text \<open>
  Timer handles are fresh: every running timer has a handle below the next one to be
  handed out. This holds in every state the dialog reaches.
\<close>

definition handles_fresh :: "component \<Rightarrow> bool" where
  "handles_fresh c = list_all (\<lambda>t. handle t < nextHandle c) (intervals c)"

section \<open>Enqueueing files\<close>

lemma msg_nonempty:
  "msg_unsupported_type \<noteq> []" "msg_too_large \<noteq> []" "msg_upload_failed \<noteq> []"
  by (simp_all add: msg_unsupported_type_def msg_too_large_def msg_upload_failed_def)

lemma validateFile_None: "validateFile f = None \<longleftrightarrow> passes_validation f"
  by (auto simp: validateFile_def passes_validation_def)

lemma validateFile_Some: "validateFile f = Some m \<Longrightarrow> m \<noteq> []"
  by (auto simp: validateFile_def msg_nonempty split: if_splits)

lemma newEntry_status:
  "status (newEntry (f, now, rnd)) = (if passes_validation f then Pending else Error)"
  using validateFile_None[of f] validateFile_Some[of f]
  by (cases "validateFile f") (auto simp: Let_def)

lemma newEntry_fields:
  "file_uf (newEntry (f, now, rnd)) = f"
  "progress (newEntry (f, now, rnd)) = 0"
  "title (newEntry (f, now, rnd)) = name f"
  "error_uf (newEntry (f, now, rnd)) = validateFile f"
  "id_uf (newEntry (f, now, rnd)) = show_nat now @ ''-'' @ rnd"
  by (simp_all add: Let_def)

lemma newEntry_status_fst:
  "status (newEntry s) = (if passes_validation (fst s) then Pending else Error)"
  by (cases s) (simp only: newEntry_status fst_conv)

lemma count_pending_new:
  "length (filter (\<lambda>f. status f = Pending) (map newEntry files)) =
   length (filter (\<lambda>s. passes_validation (fst s)) files)"
  by (induction files) (simp_all add: newEntry_status_fst del: newEntry.simps)

lemma count_pending_or_error_new:
  "length (filter (\<lambda>f. status f = Pending \<or> status f = Error) (map newEntry files)) = length files"
  by (induction files) (simp_all add: newEntry_status_fst del: newEntry.simps)

lemma uploadFiles_enqueue_all:
  "uploadFiles (enqueue_all batches c) = uploadFiles c @ map newEntry (concat batches)"
  by (induction batches arbitrary: c) (simp_all add: enqueue_all_def handleFiles_def)

lemma example_files_validation:
  "\<not> passes_validation pdf60" "passes_validation png2" "passes_validation txt1"
  by (simp_all add: passes_validation_def pdf60_def png2_def txt1_def acceptedTypes_def)

text \<open>
  Claim C1. \<open>handleFiles\<close> appends one entry per selected file, in order. A file whose
  media type is in the allow-list and whose size is at most 50 MiB gets an entry with
  status pending; every other file gets an entry with status error and a non-empty
  message. The number of pending entries grows by the number of files that pass
  validation; after any sequence of calls on the initially empty list it equals the number
  of enqueued files that pass validation, and the pending and error entries together are
  as many as the files enqueued.
\<close>

theorem enqueue_validates_and_counts:
  "uploadFiles (handleFiles files c) = uploadFiles c @ map newEntry files
   \<and> (\<forall>s \<in> set files.
        file_uf (newEntry s) = fst s \<and>
        (if passes_validation (fst s)
         then status (newEntry s) = Pending
         else status (newEntry s) = Error \<and> (\<exists>m. error_uf (newEntry s) = Some m \<and> m \<noteq> [])))
   \<and> pendingCount (handleFiles files c) =
        pendingCount c + length (filter (\<lambda>s. passes_validation (fst s)) files)
   \<and> pendingCount (enqueue_all batches initial) =
        length (filter (\<lambda>s. passes_validation (fst s)) (concat batches))
   \<and> length (filter (\<lambda>f. status f = Pending \<or> status f = Error)
               (uploadFiles (enqueue_all batches initial))) = length (concat batches)"
proof (intro conjI ballI)
  show "uploadFiles (handleFiles files c) = uploadFiles c @ map newEntry files"
    by (simp add: handleFiles_def)
next
  fix s assume "s \<in> set files"
  obtain f now rnd where s: "s = (f, now, rnd)" by (cases s)
  show "file_uf (newEntry s) = fst s" by (simp add: s Let_def)
  show "if passes_validation (fst s)
         then status (newEntry s) = Pending
         else status (newEntry s) = Error \<and> (\<exists>m. error_uf (newEntry s) = Some m \<and> m \<noteq> [])"
    using validateFile_None[of f] validateFile_Some[of f]
    by (cases "validateFile f")
       (auto simp: s newEntry_status newEntry_fields simp del: newEntry.simps)
next
  show "pendingCount (handleFiles files c) =
        pendingCount c + length (filter (\<lambda>s. passes_validation (fst s)) files)"
    using count_pending_new[of files] by (simp add: pendingCount_def handleFiles_def)
next
  show "pendingCount (enqueue_all batches initial) =
        length (filter (\<lambda>s. passes_validation (fst s)) (concat batches))"
    using count_pending_new[of "concat batches"]
    by (simp add: pendingCount_def uploadFiles_enqueue_all initial_def)
next
  show "length (filter (\<lambda>f. status f = Pending \<or> status f = Error)
               (uploadFiles (enqueue_all batches initial))) = length (concat batches)"
    using count_pending_or_error_new[of "concat batches"]
    by (simp add: uploadFiles_enqueue_all initial_def)
qed

theorem enqueue_validates_and_counts_witness:
  "passes_validation png2 \<and> \<not> passes_validation pdf60
   \<and> status (newEntry (png2, 1000, ''0.25'')) = Pending
   \<and> status (newEntry (pdf60, 1000, ''0.5'')) = Error
   \<and> error_uf (newEntry (pdf60, 1000, ''0.5'')) = Some msg_too_large
   \<and> pendingCount (handleFiles [(pdf60, 1000, ''0.5''), (png2, 1000, ''0.25'')] initial) = 1
   \<and> pendingCount (enqueue_all [[(pdf60, 1000, ''0.5'')], [(png2, 1000, ''0.25'')]] initial) = 1"
proof -
  have e: "error_uf (newEntry (pdf60, 1000, ''0.5'')) = Some msg_too_large"
    by (simp add: validateFile_def pdf60_def acceptedTypes_def Let_def)
  have p0: "pendingCount initial = 0"
    by (simp add: pendingCount_def initial_def)
  show ?thesis
    using enqueue_validates_and_counts
            [of "[(pdf60, 1000, ''0.5''), (png2, 1000, ''0.25'')]" initial
                "[[(pdf60, 1000, ''0.5'')], [(png2, 1000, ''0.25'')]]"]
          example_files_validation e p0
    by (simp del: newEntry.simps)
qed

section \<open>Entry ids\<close>

lemma lt10: "d < (10::nat) \<Longrightarrow> d = 0 \<or> d = 1 \<or> d = 2 \<or> d = 3 \<or> d = 4 \<or> d = 5 \<or> d = 6 \<or> d = 7 \<or> d = 8 \<or> d = 9"
  by arith

lemma digit_char_props:
  assumes "d < 10"
  shows "digit_char d \<noteq> CHR ''-''" and "digit_val (digit_char d) = d"
  using lt10[OF assms] by (auto simp: digit_char_def digit_val_def)

lemma show_nat_no_hyphen: "CHR ''-'' \<notin> set (show_nat n)"
proof (induction n rule: show_nat.induct)
  case (1 n)
  show ?case
  proof (cases "n < 10")
    case True
    then show ?thesis using digit_char_props(1)[of n] by (auto simp: show_nat.simps[of n])
  next
    case False
    then show ?thesis using 1 digit_char_props(1)[of "n mod 10"] by (auto simp: show_nat.simps[of n])
  qed
qed

lemma read_nat_snoc: "read_nat (s @ [ch]) = 10 * read_nat s + digit_val ch"
  by (simp add: read_nat_def)

lemma read_show_nat: "read_nat (show_nat n) = n"
proof (induction n rule: show_nat.induct)
  case (1 n)
  show ?case
  proof (cases "n < 10")
    case True
    then show ?thesis by (simp add: show_nat.simps[of n] digit_char_props read_nat_def)
  next
    case False
    then show ?thesis using 1 by (simp add: show_nat.simps[of n] digit_char_props read_nat_snoc)
  qed
qed

lemma show_nat_inj: "show_nat a = show_nat b \<Longrightarrow> a = b"
  by (metis read_show_nat)

lemma split_at_hyphen:
  assumes "x \<notin> set xs" "x \<notin> set ys" "xs @ x # r = ys @ x # r'"
  shows "xs = ys \<and> r = r'"
proof -
  have "takeWhile (\<lambda>y. y \<noteq> x) (xs @ x # r) = xs" using assms(1) by (auto simp: takeWhile_tail)
  moreover have "takeWhile (\<lambda>y. y \<noteq> x) (ys @ x # r') = ys" using assms(2) by (auto simp: takeWhile_tail)
  ultimately have "xs = ys" using assms(3) by simp
  then show ?thesis using assms(3) by simp
qed

lemma entry_id_inj: "entry_id d = entry_id d' \<longleftrightarrow> d = d'"
  using split_at_hyphen[OF show_nat_no_hyphen show_nat_no_hyphen, of "fst d" "snd d" "fst d'" "snd d'"]
        show_nat_inj[of "fst d" "fst d'"]
  by (auto simp: entry_id_def prod_eq_iff)

lemma id_newEntry: "id_uf (newEntry s) = entry_id (snd s)"
  by (cases s) (simp add: entry_id_def Let_def)

lemma ids_handleFiles:
  "map id_uf (uploadFiles (handleFiles files c)) =
   map id_uf (uploadFiles c) @ map entry_id (map snd files)"
  by (simp add: handleFiles_def id_newEntry del: newEntry.simps)

section \<open>Starting the uploads\<close>

lemma uploadFiles_forEach:
  "uploadFiles (fst (forEach_uploadFile c ufs)) =
   map (\<lambda>f. if id_uf f \<in> id_uf ` set ufs then f\<lparr>status := Uploading, progress := 0\<rparr> else f)
       (uploadFiles c)"
proof (induction ufs arbitrary: c)
  case Nil
  then show ?case by simp
next
  case (Cons uf ufs)
  show ?case
    by (simp add: split_def Let_def Cons.IH uploadFile_start_def) 
qed

lemma attempts_forEach: "map fst (snd (forEach_uploadFile c ufs)) = ufs"
  by (induction ufs arbitrary: c) (simp_all add: split_def Let_def)

lemma uploadFiles_startUpload:
  "uploadFiles (fst (startUpload c)) =
   map (\<lambda>f. if id_uf f \<in> id_uf ` {g \<in> set (uploadFiles c). status g = Pending}
            then f\<lparr>status := Uploading, progress := 0\<rparr> else f)
       (uploadFiles c)"
  by (simp add: startUpload_def Let_def uploadFiles_forEach)

lemma ids_startUpload: "map id_uf (uploadFiles (fst (startUpload c))) = map id_uf (uploadFiles c)"
  by (simp add: uploadFiles_startUpload o_def if_distrib cong: if_cong)

lemma ids_progressTick: "map id_uf (uploadFiles (progressTick c h)) = map id_uf (uploadFiles c)"
  by (simp add: progressTick_def o_def if_distrib split: option.splits cong: if_cong)

lemma ids_resume: "map id_uf (uploadFiles (uploadFile_resume c uf h a)) = map id_uf (uploadFiles c)"
  by (simp add: uploadFile_resume_def uploadFile_catch_def clearInterval_def Let_def o_def if_distrib
           split: outcome.splits cong: if_cong)

lemma ids_updateFileTitle: "map id_uf (uploadFiles (updateFileTitle i t c)) = map id_uf (uploadFiles c)"
  by (simp add: updateFileTitle_def o_def if_distrib cong: if_cong)

lemma ids_removeFile:
  "map id_uf (uploadFiles (removeFile i c)) = filter (\<lambda>j. j \<noteq> i) (map id_uf (uploadFiles c))"
  by (simp add: removeFile_def filter_map o_def)

text \<open>
  Claim C2, as amended. In every state whose entry ids are pairwise distinct,
  \<open>startUpload\<close> sets exactly the entries with status pending to status uploading with
  progress 0, leaves every other entry (success, error or uploading) entirely unchanged,
  and begins one upload attempt per pending entry.
\<close>

theorem startUpload_marks_pending:
  assumes "distinct (map id_uf (uploadFiles c))"
  shows "uploadFiles (fst (startUpload c)) =
           map (\<lambda>f. if status f = Pending then f\<lparr>status := Uploading, progress := 0\<rparr> else f)
               (uploadFiles c)
         \<and> map fst (snd (startUpload c)) = filter (\<lambda>f. status f = Pending) (uploadFiles c)"
proof
  have inj: "inj_on id_uf (set (uploadFiles c))"
    using assms by (simp add: distinct_map)
  have "id_uf f \<in> id_uf ` {g \<in> set (uploadFiles c). status g = Pending} \<longleftrightarrow> status f = Pending"
    if "f \<in> set (uploadFiles c)" for f
    using that inj by (auto dest: inj_onD)
  then show "uploadFiles (fst (startUpload c)) =
           map (\<lambda>f. if status f = Pending then f\<lparr>status := Uploading, progress := 0\<rparr> else f)
               (uploadFiles c)"
    by (simp add: uploadFiles_startUpload)
  show "map fst (snd (startUpload c)) = filter (\<lambda>f. status f = Pending) (uploadFiles c)"
    by (simp add: startUpload_def Let_def attempts_forEach)
qed

lemma distinct_instants_files:
  "uploadFiles distinct_instants = [newEntry (png2, 1000, ''0.5''), newEntry (pdf60, 1000, ''0.7'')]"
  by (simp add: distinct_instants_def handleFiles_def initial_def del: newEntry.simps)

lemma same_instant_files:
  "uploadFiles same_instant = [newEntry (png2, 1000, ''0.5''), newEntry (pdf60, 1000, ''0.5'')]"
  by (simp add: same_instant_def handleFiles_def initial_def del: newEntry.simps)

theorem startUpload_marks_pending_witness:
  "distinct (map id_uf (uploadFiles distinct_instants))
   \<and> map status (uploadFiles distinct_instants) = [Pending, Error]
   \<and> map status (uploadFiles (fst (startUpload distinct_instants))) = [Uploading, Error]"
proof -
  have d: "distinct (map id_uf (uploadFiles distinct_instants))"
    by (simp add: distinct_instants_files Let_def)
  have s: "map status (uploadFiles distinct_instants) = [Pending, Error]"
    using example_files_validation
    by (simp add: distinct_instants_files newEntry_status del: newEntry.simps)
  show ?thesis
    using startUpload_marks_pending [OF d] d s
    by (simp add: distinct_instants_files newEntry_status example_files_validation del: newEntry.simps)
qed

text \<open>
  Claim C2 as stated, for every state, fails: entries are matched by id, so an entry with
  status error that shares its id with a pending entry is set to uploading as well. The
  state is the one \<open>handleFiles\<close> builds when the clock and the random source return
  the same values for a valid and an invalid file.
\<close>

theorem startUpload_shared_id_counterexample:
  "status (uploadFiles same_instant ! 1) = Error
   \<and> status (uploadFiles (fst (startUpload same_instant)) ! 1) = Uploading"
proof -
  have p: "filter (\<lambda>f. status f = Pending) (uploadFiles same_instant) = [newEntry (png2, 1000, ''0.5'')]"
    by (simp add: same_instant_files newEntry_status example_files_validation del: newEntry.simps)
  have "uploadFiles (fst (startUpload same_instant)) =
        map (\<lambda>f. if id_uf f \<in> id_uf ` set [newEntry (png2, 1000, ''0.5'')]
                 then f\<lparr>status := Uploading, progress := 0\<rparr> else f) (uploadFiles same_instant)"
    unfolding startUpload_def Let_def p by (rule uploadFiles_forEach)
  then show ?thesis
    by (simp add: same_instant_files newEntry_status id_newEntry example_files_validation
             del: newEntry.simps)
qed

text \<open>
  Claim C8 as stated fails: two different files enqueued in the same instant with the same
  random draw get the same id.
\<close>

theorem same_draw_same_id_counterexample:
  "id_uf (uploadFiles same_instant ! 0) = id_uf (uploadFiles same_instant ! 1)
   \<and> file_uf (uploadFiles same_instant ! 0) \<noteq> file_uf (uploadFiles same_instant ! 1)"
  by (simp add: same_instant_files id_newEntry newEntry_fields png2_def pdf60_def del: newEntry.simps)

lemma ids_step:
  "ids (step c ev) =
   (case ev of
      Enqueue files \<Rightarrow> ids c @ map entry_id (map snd files)
    | Remove i \<Rightarrow> filter (\<lambda>j. j \<noteq> i) (ids c)
    | _ \<Rightarrow> ids c)"
  unfolding ids_def
  by (cases ev)
     (simp_all add: ids_handleFiles ids_startUpload ids_progressTick ids_resume ids_removeFile
        ids_updateFileTitle)

lemma ids_invariant_step:
  assumes "distinct (ids c)"
    and "set (ids c) \<subseteq> entry_id ` set D"
    and "distinct (D @ draws_of ev)"
  shows "distinct (ids (step c ev)) \<and> set (ids (step c ev)) \<subseteq> entry_id ` set (D @ draws_of ev)"
proof (cases ev)
  case (Enqueue files)
  let ?new = "map entry_id (map snd files)"
  have inj: "inj_on entry_id (set (map snd files))"
    by (simp add: inj_on_def entry_id_inj)
  have d0: "distinct (map snd files)"
    using assms(3) Enqueue by simp
  have d1: "distinct ?new"
    using d0 inj by (simp only: distinct_map simp_thms)
  have disj: "set D \<inter> snd ` set files = {}"
    using assms(3) Enqueue by simp
  have d2: "set (ids c) \<inter> set ?new = {}"
  proof (rule ccontr)
    assume "set (ids c) \<inter> set ?new \<noteq> {}"
    then obtain x where x1: "x \<in> set (ids c)" and x2: "x \<in> set ?new"
      by blast
    from x1 assms(2) obtain d where d: "d \<in> set D" "x = entry_id d" by blast
    from x2 have "x \<in> entry_id ` snd ` set files" by (simp only: set_map)
    then obtain d' where d': "d' \<in> snd ` set files" "x = entry_id d'" by blast
    from d d' have "d = d'" by (simp add: entry_id_inj)
    with d(1) d'(1) disj show False by blast
  qed
  have st: "ids (step c ev) = ids c @ ?new"
    using ids_step[of c ev] by (simp add: Enqueue)
  have sub: "set (ids c @ ?new) \<subseteq> entry_id ` set (D @ draws_of ev)"
    using assms(2) by (auto simp: Enqueue)
  show ?thesis
    unfolding st using assms(1) d1 d2 sub by (simp only: distinct_append simp_thms)
next
  case (Remove i)
  have st: "ids (step c ev) = filter (\<lambda>j. j \<noteq> i) (ids c)"
    using ids_step[of c ev] by (simp add: Remove)
  have "set (filter (\<lambda>j. j \<noteq> i) (ids c)) \<subseteq> entry_id ` set (D @ draws_of ev)"
    using assms(2) by (auto simp: Remove)
  then show ?thesis
    unfolding st using assms(1) by (simp only: distinct_filter simp_thms)
qed (use assms ids_step[of c ev] in simp_all)

lemma ids_invariant_run:
  assumes "distinct (ids c)"
    and "set (ids c) \<subseteq> entry_id ` set D"
    and "distinct (D @ concat (map draws_of evs))"
  shows "distinct (ids (run c evs))"
  using assms
proof (induction evs arbitrary: c D)
  case Nil
  then show ?case by (simp add: run_def)
next
  case (Cons ev evs)
  have d: "distinct (D @ draws_of ev)" using Cons.prems(3) by auto
  note st = ids_invariant_step[OF Cons.prems(1,2) d]
  have "distinct (ids (run (step c ev) evs))"
    using Cons.IH[of "step c ev" "D @ draws_of ev"] st Cons.prems(3) by simp
  then show ?case by (simp add: run_def)
qed

text \<open>
  Claim C8, as amended. The id of an entry is the decimal clock reading, a hyphen and the
  text of the random number drawn for it. Over any history of the dialog from its initial
  state, the ids of the entries present are pairwise distinct provided no pair (clock
  reading, random text) is drawn twice; no operation other than enqueueing creates or
  changes an id.
\<close>

theorem ids_distinct_when_draws_distinct:
  assumes "distinct (concat (map draws_of evs))"
  shows "distinct (map id_uf (uploadFiles (run initial evs)))"
  using ids_invariant_run[of initial "[]" evs] assms by (simp add: initial_def ids_def)

theorem ids_distinct_when_draws_distinct_witness:
  "distinct (concat (map draws_of
       [Enqueue [(png2, 1000, ''0.5''), (pdf60, 1000, ''0.7'')], StartUpload,
        Enqueue [(txt1, 1001, ''0.5'')]]))
   \<and> distinct (map id_uf (uploadFiles (run initial
       [Enqueue [(png2, 1000, ''0.5''), (pdf60, 1000, ''0.7'')], StartUpload,
        Enqueue [(txt1, 1001, ''0.5'')]])))"
proof -
  have h: "distinct (concat (map draws_of
       [Enqueue [(png2, 1000, ''0.5''), (pdf60, 1000, ''0.7'')], StartUpload,
        Enqueue [(txt1, 1001, ''0.5'')]]))"
    by simp
  show ?thesis using ids_distinct_when_draws_distinct [OF h] h by (rule conjI[rotated])
qed

section \<open>One upload attempt\<close>

lemma resolves_ingestion:
  "\<exists>result. fst (uploadDocumentToN8n e f projectId t userId) = Resolves result"
  by (simp add: uploadDocumentToN8n_def split: prod.splits sum.splits)

lemma length_progressTick: "length (uploadFiles (progressTick c h)) = length (uploadFiles c)"
  by (simp add: progressTick_def split: option.splits)

lemma intervals_progressTick: "intervals (progressTick c h) = intervals c"
  by (simp add: progressTick_def split: option.splits)

lemma nextHandle_progressTick: "nextHandle (progressTick c h) = nextHandle c"
  by (simp add: progressTick_def split: option.splits)

lemma progressTick_entry:
  assumes "i < length (uploadFiles c)"
  shows "uploadFiles (progressTick c h) ! i = uploadFiles c ! i
         \<or> (progress (uploadFiles c ! i) < 90
            \<and> uploadFiles (progressTick c h) ! i =
                (uploadFiles c ! i)\<lparr>progress := progress (uploadFiles c ! i) + 10\<rparr>)"
  using assms by (simp add: progressTick_def split: option.splits)

lemma progressTick_cleared:
  assumes "\<forall>t \<in> set (intervals c). handle t \<noteq> h"
  shows "progressTick c h = c"
proof -
  have "find (\<lambda>t. handle t = h) (intervals c) = None"
    using assms by (auto simp: find_None_iff)
  then show ?thesis by (simp add: progressTick_def)
qed

lemma length_ticks: "length (uploadFiles (ticks n h c)) = length (uploadFiles c)"
  by (induction n arbitrary: c) (simp_all add: length_progressTick)

lemma intervals_ticks: "intervals (ticks n h c) = intervals c"
  by (induction n arbitrary: c) (simp_all add: intervals_progressTick)

lemma nextHandle_ticks: "nextHandle (ticks n h c) = nextHandle c"
  by (induction n arbitrary: c) (simp_all add: nextHandle_progressTick)

lemma ticks_entry:
  assumes "i < length (uploadFiles c)"
  shows "\<exists>p. uploadFiles (ticks n h c) ! i = (uploadFiles c ! i)\<lparr>progress := p\<rparr>"
  using assms
proof (induction n arbitrary: c)
  case 0
  have "uploadFiles c ! i = (uploadFiles c ! i)\<lparr>progress := progress (uploadFiles c ! i)\<rparr>"
    by simp
  then show ?case by (metis ticks.simps(1))
next
  case (Suc n)
  have i: "i < length (uploadFiles (progressTick c h))"
    using Suc.prems by (simp add: length_progressTick)
  from Suc.IH[OF i] obtain p where
    p: "uploadFiles (ticks n h (progressTick c h)) ! i = (uploadFiles (progressTick c h) ! i)\<lparr>progress := p\<rparr>"
    by blast
  from progressTick_entry[OF Suc.prems, of h] show ?case
  proof
    assume "uploadFiles (progressTick c h) ! i = uploadFiles c ! i"
    with p show ?thesis by auto
  next
    assume "progress (uploadFiles c ! i) < 90
            \<and> uploadFiles (progressTick c h) ! i =
                (uploadFiles c ! i)\<lparr>progress := progress (uploadFiles c ! i) + 10\<rparr>"
    with p show ?thesis by auto
  qed
qed

lemma uploadFiles_resume_success:
  "success result \<Longrightarrow>
   uploadFiles (uploadFile_resume c uf h (Resolves result)) =
     map (\<lambda>f. if id_uf f = id_uf uf then f\<lparr>status := Success, progress := 100\<rparr> else f)
         (uploadFiles c)"
  by (simp add: uploadFile_resume_def clearInterval_def Let_def)

lemma uploadFiles_resume_failure:
  "\<not> success result \<Longrightarrow>
   uploadFiles (uploadFile_resume c uf h (Resolves result)) =
     map (\<lambda>f. if id_uf f = id_uf uf
              then f\<lparr>status := Error, progress := 0,
                     error_uf := Some (or_else (error result) msg_upload_failed)\<rparr>
              else f)
         (uploadFiles c)"
  by (simp add: uploadFile_resume_def uploadFile_catch_def clearInterval_def Let_def)

lemma intervals_resume:
  "intervals (uploadFile_resume c uf h (Resolves result)) = filter (\<lambda>t. handle t \<noteq> h) (intervals c)"
  "nextHandle (uploadFile_resume c uf h (Resolves result)) = nextHandle c"
  by (simp_all add: uploadFile_resume_def uploadFile_catch_def clearInterval_def Let_def)

lemma start_fields:
  "uploadFiles (fst (uploadFile_start c uf)) =
     map (\<lambda>f. if id_uf f = id_uf uf then f\<lparr>status := Uploading, progress := 0\<rparr> else f)
         (uploadFiles c)"
  "intervals (fst (uploadFile_start c uf)) =
     intervals c @ [\<lparr>handle = nextHandle c, target = id_uf uf, delay = 300\<rparr>]"
  "nextHandle (fst (uploadFile_start c uf)) = nextHandle c + 1"
  "snd (uploadFile_start c uf) = nextHandle c"
  by (simp_all add: uploadFile_start_def)

lemma before_resume:
  assumes "i < length (uploadFiles c)" "id_uf (uploadFiles c ! i) = id_uf uf"
  shows "\<exists>p. uploadFiles (ticks n (nextHandle c) (fst (uploadFile_start c uf))) ! i =
              (uploadFiles c ! i)\<lparr>status := Uploading, progress := p\<rparr>"
proof -
  let ?c1 = "fst (uploadFile_start c uf)"
  have i: "i < length (uploadFiles ?c1)" using assms(1) by (simp add: start_fields)
  have "uploadFiles ?c1 ! i = (uploadFiles c ! i)\<lparr>status := Uploading, progress := 0\<rparr>"
    using assms by (simp add: start_fields)
  with ticks_entry[OF i, of n "nextHandle c"] show ?thesis by auto
qed

lemma uploadFile_unfold:
  "uploadFile e projectId userId n c uf =
   uploadFile_resume (ticks n (nextHandle c) (fst (uploadFile_start c uf))) uf (nextHandle c)
     (fst (uploadDocumentToN8n e (file_uf uf) projectId (title uf) userId))"
  by (simp add: uploadFile_def Let_def split_def start_fields)

text \<open>
  Claim C3. When the ingestion call of an upload attempt returns a success result, the
  continuation of the attempt clears its progress timer (a later firing of that timer
  changes nothing) and sets every entry with the attempt's id to status success with
  progress 100, leaving all other entries as they are. For an attempt run from start to
  end, with any number of timer firings in between, the entry it was started for ends
  as it was before the attempt except for status = success and progress = 100.
\<close>

theorem upload_success_terminal:
  assumes "success result"
  shows "uploadFiles (uploadFile_resume c uf h (Resolves result)) =
           map (\<lambda>f. if id_uf f = id_uf uf then f\<lparr>status := Success, progress := 100\<rparr> else f)
               (uploadFiles c)
       \<and> (\<forall>t \<in> set (intervals (uploadFile_resume c uf h (Resolves result))). handle t \<noteq> h)
       \<and> progressTick (uploadFile_resume c uf h (Resolves result)) h =
           uploadFile_resume c uf h (Resolves result)
       \<and> (fst (uploadDocumentToN8n e (file_uf uf) projectId (title uf) userId) = Resolves result \<longrightarrow>
            length (uploadFiles (uploadFile e projectId userId n c uf)) = length (uploadFiles c)
          \<and> (\<forall>i < length (uploadFiles c). id_uf (uploadFiles c ! i) = id_uf uf \<longrightarrow>
                uploadFiles (uploadFile e projectId userId n c uf) ! i =
                  (uploadFiles c ! i)\<lparr>status := Success, progress := 100\<rparr>)
          \<and> (\<forall>t \<in> set (intervals (uploadFile e projectId userId n c uf)).
                handle t \<noteq> nextHandle c))"
proof (intro conjI impI allI)
  let ?c' = "uploadFile_resume c uf h (Resolves result)"
  show "uploadFiles ?c' =
           map (\<lambda>f. if id_uf f = id_uf uf then f\<lparr>status := Success, progress := 100\<rparr> else f)
               (uploadFiles c)"
    using assms by (rule uploadFiles_resume_success)
  show cleared: "\<forall>t \<in> set (intervals ?c'). handle t \<noteq> h"
    by (simp add: intervals_resume)
  show "progressTick ?c' h = ?c'"
    using cleared by (rule progressTick_cleared)
next
  assume r: "fst (uploadDocumentToN8n e (file_uf uf) projectId (title uf) userId) = Resolves result"
  let ?c2 = "ticks n (nextHandle c) (fst (uploadFile_start c uf))"
  have u: "uploadFile e projectId userId n c uf = uploadFile_resume ?c2 uf (nextHandle c) (Resolves result)"
    by (simp add: uploadFile_unfold r)
  have len: "length (uploadFiles ?c2) = length (uploadFiles c)"
    by (simp add: length_ticks start_fields)
  show "length (uploadFiles (uploadFile e projectId userId n c uf)) = length (uploadFiles c)"
    using assms by (simp add: u uploadFiles_resume_success len)
  show "\<forall>t \<in> set (intervals (uploadFile e projectId userId n c uf)). handle t \<noteq> nextHandle c"
    by (simp add: u intervals_resume)
  fix i assume i: "i < length (uploadFiles c)" and m: "id_uf (uploadFiles c ! i) = id_uf uf"
  from before_resume[OF i m, of n] obtain p where
    p: "uploadFiles ?c2 ! i = (uploadFiles c ! i)\<lparr>status := Uploading, progress := p\<rparr>"
    by blast
  show "uploadFiles (uploadFile e projectId userId n c uf) ! i =
          (uploadFiles c ! i)\<lparr>status := Success, progress := 100\<rparr>"
    using assms i m by (simp add: u uploadFiles_resume_success len p)
qed


lemma png_entry:
  "0 < length (uploadFiles distinct_instants)"
  "uploadFiles distinct_instants ! 0 = newEntry (png2, 1000, ''0.5'')"
  by (simp_all add: distinct_instants_files del: newEntry.simps)

theorem upload_success_terminal_witness:
  "success \<lparr>success = True, response = Some (JString ''done''), error = None\<rparr>
   \<and> fst (uploadDocumentToN8n env_ok (file_uf (newEntry (png2, 1000, ''0.5''))) ''p1''
             (title (newEntry (png2, 1000, ''0.5''))) ''u1'') =
       Resolves \<lparr>success = True, response = Some (JString ''done''), error = None\<rparr>
   \<and> status (uploadFiles (uploadFile env_ok ''p1'' ''u1'' 3 distinct_instants
                (newEntry (png2, 1000, ''0.5''))) ! 0) = Success
   \<and> progress (uploadFiles (uploadFile env_ok ''p1'' ''u1'' 3 distinct_instants
                (newEntry (png2, 1000, ''0.5''))) ! 0) = 100"
proof -
  let ?r = "\<lparr>success = True, response = Some (JString ''done''), error = None\<rparr>"
  let ?uf = "newEntry (png2, 1000, ''0.5'')"
  have s: "success ?r" by simp
  have r: "fst (uploadDocumentToN8n env_ok (file_uf ?uf) ''p1'' (title ?uf) ''u1'') = Resolves ?r"
    by (simp add: uploadDocumentToN8n_def uploadDocumentToN8n_try_def env_ok_def Let_def)
  have "uploadFiles (uploadFile env_ok ''p1'' ''u1'' 3 distinct_instants ?uf) ! 0 =
          (uploadFiles distinct_instants ! 0)\<lparr>status := Success, progress := 100\<rparr>"
    using upload_success_terminal [OF s, of distinct_instants ?uf 0 env_ok "''p1''" "''u1''" 3] r png_entry
    by (simp del: newEntry.simps)
  then show ?thesis using s r by (simp del: newEntry.simps)
qed

text \<open>
  Claim C4, as amended. The ingestion call never rejects: a service-reported failure and
  a transport error both come back as a result with \<open>success = false\<close>. When it returns
  such a result with message \<open>M\<close>, the continuation of the attempt clears its progress
  timer (a later firing changes nothing), starts no new attempt, and sets every entry with
  the attempt's id to status error with progress 0 and error \<open>M\<close> when \<open>M\<close> is
  non-empty; an absent or empty message is replaced by the fixed text "upload failed".
\<close>

theorem upload_failure_state:
  assumes "\<not> success result"
  shows "uploadFiles (uploadFile_resume c uf h (Resolves result)) =
           map (\<lambda>f. if id_uf f = id_uf uf
                    then f\<lparr>status := Error, progress := 0,
                           error_uf := Some (or_else (error result) msg_upload_failed)\<rparr>
                    else f)
               (uploadFiles c)
       \<and> (\<forall>M. error result = Some M \<and> M \<noteq> [] \<longrightarrow> or_else (error result) msg_upload_failed = M)
       \<and> (error result = None \<or> error result = Some [] \<longrightarrow>
            or_else (error result) msg_upload_failed = msg_upload_failed)
       \<and> intervals (uploadFile_resume c uf h (Resolves result)) =
            filter (\<lambda>t. handle t \<noteq> h) (intervals c)
       \<and> nextHandle (uploadFile_resume c uf h (Resolves result)) = nextHandle c
       \<and> progressTick (uploadFile_resume c uf h (Resolves result)) h =
            uploadFile_resume c uf h (Resolves result)
       \<and> (\<exists>r. fst (uploadDocumentToN8n e (file_uf uf) projectId (title uf) userId) = Resolves r)
       \<and> (fst (uploadDocumentToN8n e (file_uf uf) projectId (title uf) userId) = Resolves result \<longrightarrow>
            length (uploadFiles (uploadFile e projectId userId n c uf)) = length (uploadFiles c)
          \<and> (\<forall>i < length (uploadFiles c). id_uf (uploadFiles c ! i) = id_uf uf \<longrightarrow>
                uploadFiles (uploadFile e projectId userId n c uf) ! i =
                  (uploadFiles c ! i)\<lparr>status := Error, progress := 0,
                     error_uf := Some (or_else (error result) msg_upload_failed)\<rparr>)
          \<and> (\<forall>t \<in> set (intervals (uploadFile e projectId userId n c uf)).
                handle t \<noteq> nextHandle c)
          \<and> nextHandle (uploadFile e projectId userId n c uf) = nextHandle c + 1)"
proof (intro conjI impI allI)
  let ?c' = "uploadFile_resume c uf h (Resolves result)"
  show "uploadFiles ?c' =
           map (\<lambda>f. if id_uf f = id_uf uf
                    then f\<lparr>status := Error, progress := 0,
                           error_uf := Some (or_else (error result) msg_upload_failed)\<rparr>
                    else f)
               (uploadFiles c)"
    using assms by (rule uploadFiles_resume_failure)
  show iv: "intervals ?c' = filter (\<lambda>t. handle t \<noteq> h) (intervals c)"
    by (simp add: intervals_resume)
  show "nextHandle ?c' = nextHandle c"
    by (simp add: intervals_resume)
  have "\<forall>t \<in> set (intervals ?c'). handle t \<noteq> h"
    by (simp add: iv)
  then show "progressTick ?c' h = ?c'"
    by (rule progressTick_cleared)
  show "\<exists>r. fst (uploadDocumentToN8n e (file_uf uf) projectId (title uf) userId) = Resolves r"
    by (rule resolves_ingestion)
next
  fix M assume "error result = Some M \<and> M \<noteq> []"
  then show "or_else (error result) msg_upload_failed = M" by simp
next
  assume "error result = None \<or> error result = Some []"
  then show "or_else (error result) msg_upload_failed = msg_upload_failed" by auto
next
  assume r: "fst (uploadDocumentToN8n e (file_uf uf) projectId (title uf) userId) = Resolves result"
  let ?c2 = "ticks n (nextHandle c) (fst (uploadFile_start c uf))"
  have u: "uploadFile e projectId userId n c uf = uploadFile_resume ?c2 uf (nextHandle c) (Resolves result)"
    by (simp add: uploadFile_unfold r)
  have len: "length (uploadFiles ?c2) = length (uploadFiles c)"
    by (simp add: length_ticks start_fields)
  show "length (uploadFiles (uploadFile e projectId userId n c uf)) = length (uploadFiles c)"
    using assms by (simp add: u uploadFiles_resume_failure len)
  show "\<forall>t \<in> set (intervals (uploadFile e projectId userId n c uf)). handle t \<noteq> nextHandle c"
    by (simp add: u intervals_resume)
  show "nextHandle (uploadFile e projectId userId n c uf) = nextHandle c + 1"
    by (simp add: u intervals_resume nextHandle_ticks start_fields)
  fix i assume i: "i < length (uploadFiles c)" and m: "id_uf (uploadFiles c ! i) = id_uf uf"
  from before_resume[OF i m, of n] obtain p where
    p: "uploadFiles ?c2 ! i = (uploadFiles c ! i)\<lparr>status := Uploading, progress := p\<rparr>"
    by blast
  show "uploadFiles (uploadFile e projectId userId n c uf) ! i =
          (uploadFiles c ! i)\<lparr>status := Error, progress := 0,
                     error_uf := Some (or_else (error result) msg_upload_failed)\<rparr>"
    using assms i m by (simp add: u uploadFiles_resume_failure len p)
qed

theorem upload_failure_state_witness:
  "\<not> success \<lparr>success = False, response = None, error = Some ''Failed to fetch''\<rparr>
   \<and> fst (uploadDocumentToN8n env_offline (file_uf (newEntry (png2, 1000, ''0.5''))) ''p1''
             (title (newEntry (png2, 1000, ''0.5''))) ''u1'') =
       Resolves \<lparr>success = False, response = None, error = Some ''Failed to fetch''\<rparr>
   \<and> status (uploadFiles (uploadFile env_offline ''p1'' ''u1'' 3 distinct_instants
                (newEntry (png2, 1000, ''0.5''))) ! 0) = Error
   \<and> progress (uploadFiles (uploadFile env_offline ''p1'' ''u1'' 3 distinct_instants
                (newEntry (png2, 1000, ''0.5''))) ! 0) = 0
   \<and> error_uf (uploadFiles (uploadFile env_offline ''p1'' ''u1'' 3 distinct_instants
                (newEntry (png2, 1000, ''0.5''))) ! 0) = Some ''Failed to fetch''"
proof -
  let ?r = "\<lparr>success = False, response = None, error = Some ''Failed to fetch''\<rparr>"
  let ?uf = "newEntry (png2, 1000, ''0.5'')"
  have s: "\<not> success ?r" by simp
  have r: "fst (uploadDocumentToN8n env_offline (file_uf ?uf) ''p1'' (title ?uf) ''u1'') = Resolves ?r"
    by (simp add: uploadDocumentToN8n_def uploadDocumentToN8n_try_def env_offline_def env_ok_def
          failed_def Let_def)
  have "uploadFiles (uploadFile env_offline ''p1'' ''u1'' 3 distinct_instants ?uf) ! 0 =
          (uploadFiles distinct_instants ! 0)\<lparr>status := Error, progress := 0,
              error_uf := Some (or_else (error ?r) msg_upload_failed)\<rparr>"
    using upload_failure_state [OF s, of distinct_instants ?uf 0 env_offline "''p1''" "''u1''" 3] r png_entry
    by (simp del: newEntry.simps)
  then show ?thesis using s r by (simp del: newEntry.simps)
qed

text \<open>
  Claim C4 as stated fails for the empty message: when the request is rejected with an
  \<open>Error\<close> whose message is empty, the ingestion call returns a failure with message
  \<open>M = ""\<close>, and the entry's error is the fallback text, not \<open>M\<close>.
\<close>

theorem upload_failure_empty_message_counterexample:
  "fst (uploadDocumentToN8n env_empty_message (file_uf (newEntry (png2, 1000, ''0.5''))) ''p1''
          (title (newEntry (png2, 1000, ''0.5''))) ''u1'') =
     Resolves \<lparr>success = False, response = None, error = Some []\<rparr>
   \<and> error_uf (uploadFiles (uploadFile env_empty_message ''p1'' ''u1'' 0 distinct_instants
                (newEntry (png2, 1000, ''0.5''))) ! 0) = Some msg_upload_failed
   \<and> msg_upload_failed \<noteq> []"
proof -
  let ?uf = "newEntry (png2, 1000, ''0.5'')"
  have r: "fst (uploadDocumentToN8n env_empty_message (file_uf ?uf) ''p1'' (title ?uf) ''u1'') =
           Resolves \<lparr>success = False, response = None, error = Some []\<rparr>"
    by (simp add: uploadDocumentToN8n_def uploadDocumentToN8n_try_def env_empty_message_def
          env_ok_def failed_def Let_def)
  have "error_uf (uploadFiles (uploadFile env_empty_message ''p1'' ''u1'' 0 distinct_instants ?uf) ! 0)
        = Some msg_upload_failed"
    unfolding uploadFile_unfold r
    by (simp add: uploadFiles_resume_failure start_fields distinct_instants_files del: newEntry.simps)
  then show ?thesis using r msg_nonempty(3) by (simp del: newEntry.simps)
qed

section \<open>The progress simulation\<close>

lemma find_last:
  "\<forall>y \<in> set xs. \<not> P y \<Longrightarrow> P x \<Longrightarrow> find P (xs @ [x]) = Some x"
  by (induction xs) simp_all

lemma find_started:
  assumes "\<forall>t \<in> set (intervals c). handle t < nextHandle c"
  shows "find (\<lambda>t. handle t = nextHandle c) (intervals (fst (uploadFile_start c uf))) =
         Some \<lparr>handle = nextHandle c, target = id_uf uf, delay = 300\<rparr>"
proof -
  have "\<forall>t \<in> set (intervals c). \<not> handle t = nextHandle c"
    using assms by auto
  then show ?thesis
    by (simp add: start_fields find_last)
qed

lemma progressTick_active:
  assumes "find (\<lambda>t. handle t = h) (intervals c) = Some t"
  shows "uploadFiles (progressTick c h) =
           map (\<lambda>f. if id_uf f = target t \<and> progress f < 90
                    then f\<lparr>progress := progress f + 10\<rparr> else f)
               (uploadFiles c)"
  using assms by (simp add: progressTick_def)

lemma ticks_progress:
  assumes "find (\<lambda>t. handle t = h) (intervals c) = Some t"
    and "i < length (uploadFiles c)"
    and "id_uf (uploadFiles c ! i) = target t"
    and "progress (uploadFiles c ! i) = min (10 * int k) 90"
  shows "progress (uploadFiles (ticks n h c) ! i) = min (10 * int (k + n)) 90"
  using assms
proof (induction n arbitrary: c k)
  case 0
  then show ?case by simp
next
  case (Suc n)
  let ?c1 = "progressTick c h"
  have f: "find (\<lambda>t. handle t = h) (intervals ?c1) = Some t"
    using Suc.prems(1) by (simp add: intervals_progressTick)
  have i: "i < length (uploadFiles ?c1)"
    using Suc.prems(2) by (simp add: length_progressTick)
  have idm: "id_uf (uploadFiles ?c1 ! i) = target t"
    using Suc.prems(1,2,3) by (simp add: progressTick_active)
  have p: "progress (uploadFiles ?c1 ! i) = min (10 * int (Suc k)) 90"
    using Suc.prems by (simp add: progressTick_active)
  from Suc.IH[OF f i idm p] show ?case by simp
qed

lemma progressTick_not_100:
  assumes "i < length (uploadFiles c)"
    and "progress (uploadFiles (progressTick c h) ! i) = 100"
  shows "progress (uploadFiles c ! i) = 100"
  using progressTick_entry[OF assms(1), of h] assms(2) by auto

lemma entry_of_map:
  assumes "f' \<in> set (map g xs)"
  obtains f where "f \<in> set xs" and "f' = g f"
  using assms by auto

lemma only_success_gives_100:
  assumes "f' \<in> set (uploadFiles (step c ev))" and "progress f' = 100"
  shows "(\<exists>uf h r. ev = Resume uf h (Resolves r) \<and> success r \<and> id_uf f' = id_uf uf)
         \<or> (\<exists>f \<in> set (uploadFiles c). progress f = 100 \<and> id_uf f = id_uf f' \<and> file_uf f = file_uf f')"
proof -
  have kept: ?thesis if "f' \<in> set (uploadFiles c)"
    using that assms(2) by blast
  have changed: ?thesis
    if "f \<in> set (uploadFiles c)" and "progress f' = progress f"
      and "id_uf f' = id_uf f" and "file_uf f' = file_uf f" for f
    using that assms(2) by auto
  show ?thesis
  proof (cases ev)
    case (Enqueue files)
    have "f' \<in> set (uploadFiles c) \<or> f' \<in> set (map newEntry files)"
      using assms(1) by (simp add: Enqueue handleFiles_def del: newEntry.simps)
    moreover have False if "f' \<in> set (map newEntry files)"
    proof -
      from that obtain s where "f' = newEntry s" by (rule entry_of_map)
      then have "progress f' = 0" by (cases s) (simp add: Let_def)
      with assms(2) show False by simp
    qed
    ultimately show ?thesis using kept by blast
  next
    case StartUpload
    let ?g = "\<lambda>f. if id_uf f \<in> id_uf ` {g \<in> set (uploadFiles c). status g = Pending}
                  then f\<lparr>status := Uploading, progress := 0\<rparr> else f"
    have "f' \<in> set (map ?g (uploadFiles c))"
      using assms(1) by (simp only: StartUpload step.simps uploadFiles_startUpload)
    then obtain f where f: "f \<in> set (uploadFiles c)" "f' = ?g f" by (rule entry_of_map)
    have "f' = f" using f(2) assms(2) by (simp split: if_splits)
    then show ?thesis using f(1) kept by simp
  next
    case (Tick h)
    show ?thesis
    proof (cases "find (\<lambda>t. handle t = h) (intervals c)")
      case None
      then have "progressTick c h = c" by (simp add: progressTick_def)
      then show ?thesis using assms(1) Tick kept by simp
    next
      case (Some t)
      let ?g = "\<lambda>f. if id_uf f = target t \<and> progress f < 90
                    then f\<lparr>progress := progress f + 10\<rparr> else f"
      have "f' \<in> set (map ?g (uploadFiles c))"
        using assms(1) by (simp only: Tick step.simps progressTick_active[OF Some])
      then obtain f where f: "f \<in> set (uploadFiles c)" "f' = ?g f" by (rule entry_of_map)
      have "f' = f" using f(2) assms(2) by (simp split: if_splits)
      then show ?thesis using f(1) kept by simp
    qed
  next
    case (Resume uf h awaited)
    show ?thesis
    proof (cases awaited)
      case (Rejects x)
      let ?g = "\<lambda>f. if id_uf f = id_uf uf
                   then f\<lparr>status := Error, progress := 0,
                          error_uf := Some (message_or x msg_upload_failed)\<rparr>
                   else f"
      have "f' \<in> set (map ?g (uploadFiles c))"
        using assms(1) by (simp add: Resume Rejects uploadFile_resume_def uploadFile_catch_def)
      then obtain f where f: "f \<in> set (uploadFiles c)" "f' = ?g f" by (rule entry_of_map)
      have "f' = f" using f(2) assms(2) by (simp split: if_splits)
      then show ?thesis using f(1) kept by simp
    next
      case (Resolves r)
      show ?thesis
      proof (cases "success r")
        case True
        let ?g = "\<lambda>f. if id_uf f = id_uf uf then f\<lparr>status := Success, progress := 100\<rparr> else f"
        have "f' \<in> set (map ?g (uploadFiles c))"
          using assms(1) by (simp only: Resume Resolves step.simps uploadFiles_resume_success[OF True])
        then obtain f where f: "f \<in> set (uploadFiles c)" "f' = ?g f" by (rule entry_of_map)
        show ?thesis
        proof (cases "id_uf f = id_uf uf")
          case True
          then have "id_uf f' = id_uf uf" using f(2) by simp
          then show ?thesis using Resume Resolves \<open>success r\<close> by blast
        next
          case False
          then have "f' = f" using f(2) by simp
          then show ?thesis using f(1) kept by simp
        qed
      next
        case False
        let ?g = "\<lambda>f. if id_uf f = id_uf uf
                     then f\<lparr>status := Error, progress := 0,
                            error_uf := Some (or_else (error r) msg_upload_failed)\<rparr>
                     else f"
        have "f' \<in> set (map ?g (uploadFiles c))"
          using assms(1) by (simp only: Resume Resolves step.simps uploadFiles_resume_failure[OF False])
        then obtain f where f: "f \<in> set (uploadFiles c)" "f' = ?g f" by (rule entry_of_map)
        have "f' = f" using f(2) assms(2) by (simp split: if_splits)
        then show ?thesis using f(1) kept by simp
      qed
    qed
  next
    case (Remove i)
    then have "f' \<in> set (uploadFiles c)" using assms(1) by (simp add: removeFile_def)
    then show ?thesis by (rule kept)
  next
    case (UpdateTitle i t)
    let ?g = "\<lambda>f. if id_uf f = i then f\<lparr>title := t\<rparr> else f"
    have "f' \<in> set (map ?g (uploadFiles c))"
      using assms(1) by (simp add: UpdateTitle updateFileTitle_def)
    then obtain f where f: "f \<in> set (uploadFiles c)" "f' = ?g f" by (rule entry_of_map)
    have "progress f' = progress f" "id_uf f' = id_uf f" "file_uf f' = file_uf f"
      using f(2) by simp_all
    with f(1) show ?thesis by (rule changed)
  qed
qed

lemma handles_fresh_start:
  "handles_fresh c \<Longrightarrow> handles_fresh (fst (uploadFile_start c uf))"
  by (auto simp: handles_fresh_def list_all_iff start_fields)

lemma handles_fresh_forEach:
  "handles_fresh c \<Longrightarrow> handles_fresh (fst (forEach_uploadFile c ufs))"
proof (induction ufs arbitrary: c)
  case Nil
  then show ?case by simp
next
  case (Cons uf ufs)
  from Cons.IH[OF handles_fresh_start[OF Cons.prems, of uf]]
  show ?case by (simp add: split_def Let_def)
qed

lemma handles_fresh_step:
  assumes "handles_fresh c"
  shows "handles_fresh (step c ev)"
proof (cases ev)
  case (Enqueue files)
  then show ?thesis using assms by (simp add: handles_fresh_def handleFiles_def)
next
  case StartUpload
  then show ?thesis using assms by (simp add: startUpload_def handles_fresh_forEach)
next
  case (Tick h)
  then show ?thesis
    using assms by (simp add: handles_fresh_def intervals_progressTick nextHandle_progressTick)
next
  case (Resume uf h awaited)
  then show ?thesis
    using assms
    by (cases awaited)
       (auto simp: handles_fresh_def list_all_iff uploadFile_resume_def uploadFile_catch_def
          clearInterval_def Let_def)
next
  case (Remove i)
  then show ?thesis using assms by (simp add: handles_fresh_def removeFile_def)
next
  case (UpdateTitle i t)
  then show ?thesis using assms by (simp add: handles_fresh_def updateFileTitle_def)
qed

lemma handles_fresh_run: "handles_fresh c \<Longrightarrow> handles_fresh (run c evs)"
  unfolding run_def by (induction evs arbitrary: c) (simp_all add: handles_fresh_step)

lemma handles_fresh_reachable:
  "\<forall>t \<in> set (intervals (run initial evs)). handle t < nextHandle (run initial evs)"
proof -
  have "handles_fresh initial" by (simp add: handles_fresh_def initial_def)
  then have "handles_fresh (run initial evs)" by (rule handles_fresh_run)
  then show ?thesis by (simp add: handles_fresh_def list_all_iff)
qed

text \<open>
  Claim C6. One firing of a progress timer changes an entry only by adding 10 to its
  progress, and only when its progress is below 90; so a firing never brings a progress
  to 100. The timer that an upload attempt starts has a period of 300 ms, and after the
  attempt has started and its timer has fired \<open>n\<close> times the entry's progress is
  \<open>10 n\<close>, capped at 90. Over all events of the dialog, an entry has progress 100 after
  an event only if the event is the continuation of an attempt with a success result for
  its id, or an entry with this id already had progress 100.
\<close>

theorem progress_simulation:
  "(\<forall>i < length (uploadFiles c).
      uploadFiles (progressTick c h) ! i = uploadFiles c ! i
      \<or> (progress (uploadFiles c ! i) < 90
         \<and> uploadFiles (progressTick c h) ! i =
             (uploadFiles c ! i)\<lparr>progress := progress (uploadFiles c ! i) + 10\<rparr>))
   \<and> (\<forall>i < length (uploadFiles c).
        progress (uploadFiles (progressTick c h) ! i) = 100 \<longrightarrow> progress (uploadFiles c ! i) = 100)
   \<and> intervals (fst (uploadFile_start c uf)) =
        intervals c @ [\<lparr>handle = nextHandle c, target = id_uf uf, delay = 300\<rparr>]
   \<and> ((\<forall>t \<in> set (intervals c). handle t < nextHandle c) \<longrightarrow>
        (\<forall>i < length (uploadFiles c). id_uf (uploadFiles c ! i) = id_uf uf \<longrightarrow>
           progress (uploadFiles (ticks n (nextHandle c) (fst (uploadFile_start c uf))) ! i) =
             min (10 * int n) 90))
   \<and> (\<forall>f' \<in> set (uploadFiles (step c ev)). progress f' = 100 \<longrightarrow>
        (\<exists>uf h r. ev = Resume uf h (Resolves r) \<and> success r \<and> id_uf f' = id_uf uf)
        \<or> (\<exists>f \<in> set (uploadFiles c).
              progress f = 100 \<and> id_uf f = id_uf f' \<and> file_uf f = file_uf f'))"
proof (intro conjI allI impI ballI)
  fix i assume "i < length (uploadFiles c)"
  then show "uploadFiles (progressTick c h) ! i = uploadFiles c ! i
      \<or> (progress (uploadFiles c ! i) < 90
         \<and> uploadFiles (progressTick c h) ! i =
             (uploadFiles c ! i)\<lparr>progress := progress (uploadFiles c ! i) + 10\<rparr>)"
    by (rule progressTick_entry)
next
  fix i assume "i < length (uploadFiles c)" "progress (uploadFiles (progressTick c h) ! i) = 100"
  then show "progress (uploadFiles c ! i) = 100" by (rule progressTick_not_100)
next
  show "intervals (fst (uploadFile_start c uf)) =
        intervals c @ [\<lparr>handle = nextHandle c, target = id_uf uf, delay = 300\<rparr>]"
    by (simp add: start_fields)
next
  fix i
  assume wf: "\<forall>t \<in> set (intervals c). handle t < nextHandle c"
    and i: "i < length (uploadFiles c)" and m: "id_uf (uploadFiles c ! i) = id_uf uf"
  let ?c1 = "fst (uploadFile_start c uf)"
  let ?t = "\<lparr>handle = nextHandle c, target = id_uf uf, delay = 300\<rparr>"
  have f: "find (\<lambda>t. handle t = nextHandle c) (intervals ?c1) = Some ?t"
    using wf by (rule find_started)
  have i1: "i < length (uploadFiles ?c1)" using i by (simp add: start_fields)
  have m1: "id_uf (uploadFiles ?c1 ! i) = target ?t" using i m by (simp add: start_fields)
  have p1: "progress (uploadFiles ?c1 ! i) = min (10 * int 0) 90" using i m by (simp add: start_fields)
  from ticks_progress[OF f i1 m1 p1, of n]
  show "progress (uploadFiles (ticks n (nextHandle c) ?c1) ! i) = min (10 * int n) 90"
    by simp
next
  fix f' assume "f' \<in> set (uploadFiles (step c ev))" "progress f' = 100"
  then show "(\<exists>uf h r. ev = Resume uf h (Resolves r) \<and> success r \<and> id_uf f' = id_uf uf)
        \<or> (\<exists>f \<in> set (uploadFiles c).
              progress f = 100 \<and> id_uf f = id_uf f' \<and> file_uf f = file_uf f')"
    by (rule only_success_gives_100)
qed


lemma distinct_instants_timers:
  "intervals distinct_instants = []" "nextHandle distinct_instants = 1"
  by (simp_all add: distinct_instants_def handleFiles_def initial_def)

theorem progress_simulation_witness:
  "intervals distinct_instants = []
   \<and> 0 < length (uploadFiles distinct_instants)
   \<and> id_uf (uploadFiles distinct_instants ! 0) = id_uf (newEntry (png2, 1000, ''0.5''))
   \<and> progress (uploadFiles (ticks 3 1
        (fst (uploadFile_start distinct_instants (newEntry (png2, 1000, ''0.5''))))) ! 0) = 30
   \<and> progress (uploadFiles (ticks 12 1
        (fst (uploadFile_start distinct_instants (newEntry (png2, 1000, ''0.5''))))) ! 0) = 90"
proof -
  let ?uf = "newEntry (png2, 1000, ''0.5'')"
  have wf: "\<forall>t \<in> set (intervals distinct_instants). handle t < nextHandle distinct_instants"
    by (simp add: distinct_instants_timers)
  have m: "id_uf (uploadFiles distinct_instants ! 0) = id_uf ?uf"
    by (simp only: png_entry)
  note capped =
    progress_simulation [THEN conjunct2, THEN conjunct2, THEN conjunct2, THEN conjunct1,
      THEN mp, OF wf, rule_format, OF png_entry(1) m]
  have a: "progress (uploadFiles (ticks 3 (nextHandle distinct_instants)
              (fst (uploadFile_start distinct_instants ?uf))) ! 0) = min (10 * int 3) 90"
    by (rule capped)
  have b: "progress (uploadFiles (ticks 12 (nextHandle distinct_instants)
              (fst (uploadFile_start distinct_instants ?uf))) ! 0) = min (10 * int 12) 90"
    by (rule capped)
  have a': "progress (uploadFiles (ticks 3 1 (fst (uploadFile_start distinct_instants ?uf))) ! 0) = 30"
    using a by (simp add: distinct_instants_timers)
  have b': "progress (uploadFiles (ticks 12 1 (fst (uploadFile_start distinct_instants ?uf))) ! 0) = 90"
    using b by (simp add: distinct_instants_timers)
  show ?thesis
    using a' b' m png_entry(1) distinct_instants_timers(1) by (intro conjI)
qed

section \<open>Titles\<close>

lemma titles_startUpload:
  "map title (uploadFiles (fst (startUpload c))) = map title (uploadFiles c)"
  by (simp add: uploadFiles_startUpload o_def if_distrib cong: if_cong)

lemma titles_progressTick:
  "map title (uploadFiles (progressTick c h)) = map title (uploadFiles c)"
  by (simp add: progressTick_def o_def if_distrib split: option.splits cong: if_cong)

lemma titles_resume:
  "map title (uploadFiles (uploadFile_resume c uf h a)) = map title (uploadFiles c)"
  by (simp add: uploadFile_resume_def uploadFile_catch_def clearInterval_def Let_def o_def if_distrib
           split: outcome.splits cong: if_cong)

lemma titles_handleFiles:
  "map title (uploadFiles (handleFiles files c)) =
   map title (uploadFiles c) @ map (\<lambda>s. name (fst s)) files"
proof -
  have "title (newEntry s) = name (fst s)" for s
    by (cases s) (simp add: Let_def)
  then show ?thesis by (simp add: handleFiles_def o_def del: newEntry.simps)
qed

text \<open>
  Claim C7, as amended. Enqueueing, starting the uploads, a timer firing and the
  continuation of an attempt leave the title of every existing entry as it is, and
  removal only drops entries. \<open>updateFileTitle\<close> itself has no guard: it sets the title
  of every entry with the given id to the new title, whatever the entry's status,
  uploading and success included.
\<close>

theorem titles_after_step:
  "map title (uploadFiles (step c ev)) =
     (case ev of
        Enqueue files \<Rightarrow> map title (uploadFiles c) @ map (\<lambda>s. name (fst s)) files
      | Remove i \<Rightarrow> map title (filter (\<lambda>f. id_uf f \<noteq> i) (uploadFiles c))
      | UpdateTitle i newTitle \<Rightarrow>
          map (\<lambda>f. if id_uf f = i then newTitle else title f) (uploadFiles c)
      | _ \<Rightarrow> map title (uploadFiles c))"
  by (cases ev)
     (simp_all add: titles_handleFiles titles_startUpload titles_progressTick titles_resume
        removeFile_def updateFileTitle_def o_def if_distrib cong: if_cong)

theorem titles_after_step_witness:
  "map title (uploadFiles (step distinct_instants StartUpload)) = [''a.png'', ''big.pdf'']
   \<and> map title (uploadFiles (step distinct_instants (UpdateTitle ''none'' ''renamed''))) =
       map (\<lambda>f. if id_uf f = ''none'' then ''renamed'' else title f) (uploadFiles distinct_instants)"
  using titles_after_step [of distinct_instants StartUpload]
        titles_after_step [of distinct_instants "UpdateTitle ''none'' ''renamed''"]
  by (simp add: distinct_instants_files newEntry_fields png2_def pdf60_def del: newEntry.simps)

lemma uploaded_files:
  "uploadFiles uploaded = [(newEntry (png2, 1000, ''0.5''))\<lparr>status := Success, progress := 100\<rparr>]"
proof -
  let ?uf = "newEntry (png2, 1000, ''0.5'')"
  let ?c1 = "handleFiles [(png2, 1000, ''0.5'')] initial"
  have f1: "uploadFiles ?c1 = [?uf]"
    by (simp add: handleFiles_def initial_def del: newEntry.simps)
  have st: "status ?uf = Pending"
    by (simp add: newEntry_status example_files_validation del: newEntry.simps)
  have f2: "uploadFiles (fst (startUpload ?c1)) = [?uf\<lparr>status := Uploading, progress := 0\<rparr>]"
    by (simp add: uploadFiles_startUpload f1 st del: newEntry.simps)
  show ?thesis
    by (simp add: uploaded_def run_def uploadFiles_resume_success f2 del: newEntry.simps)
qed

text \<open>
  Claim C7 as stated fails: after an upload has succeeded, \<open>updateFileTitle\<close> still
  changes the title of the entry, although its title input is rendered disabled.
\<close>

theorem updateFileTitle_after_success_counterexample:
  "status (uploadFiles uploaded ! 0) = Success
   \<and> title_disabled (uploadFiles uploaded ! 0)
   \<and> title (uploadFiles uploaded ! 0) = ''a.png''
   \<and> title (uploadFiles
        (updateFileTitle (id_uf (uploadFiles uploaded ! 0)) ''renamed'' uploaded) ! 0) = ''renamed''"
  by (simp add: uploaded_files updateFileTitle_def title_disabled_def newEntry_fields png2_def
           del: newEntry.simps)

section \<open>The ingestion call\<close>

lemma show_nat_examples: "show_nat 500 = ''500''" "show_nat 404 = ''404''"
  by (simp_all add: show_nat.simps digit_char_def)

text \<open>
  Claim C5, as amended. When the upload request gets a response that is not ok and whose
  body can be read, the ingestion call returns success, with the body as its response
  payload, exactly when the status is 500 and the body is non-empty. For every other
  status that is not ok, and for an empty body, it returns a failure whose message carries
  the status code and the status text.
\<close>

theorem upload_lenient_only_for_500:
  assumes "fetch e = Resolves r" and "text_r r = Resolves body" and "\<not> ok r"
  shows "fst (uploadDocumentToN8n e f projectId t userId) =
           Resolves
             (if status_r r = 500 \<and> body \<noteq> []
              then \<lparr>success = True, response = Some (JString body), error = None\<rparr>
              else \<lparr>success = False, response = None,
                    error = Some (msg_file_upload_failed @ '': '' @ show_nat (status_r r) @ '' ''
                                  @ statusText r)\<rparr>)"
  using assms
  by (simp add: uploadDocumentToN8n_def uploadDocumentToN8n_try_def failed_def Let_def)

theorem upload_lenient_only_for_500_witness:
  "fetch env_500 = Resolves response_500
   \<and> text_r response_500 = Resolves ''Workflow executed''
   \<and> \<not> ok response_500
   \<and> fst (uploadDocumentToN8n env_500 png2 ''p1'' ''a.png'' ''u1'') =
       Resolves \<lparr>success = True, response = Some (JString ''Workflow executed''),
                 error = None\<rparr>"
proof -
  have a: "fetch env_500 = Resolves response_500"
    by (simp add: env_500_def env_ok_def)
  have b: "text_r response_500 = Resolves ''Workflow executed''"
    by (simp add: response_500_def)
  have c: "\<not> ok response_500"
    by (simp add: response_500_def)
  have d: "status_r response_500 = 500"
    by (simp add: response_500_def)
  show ?thesis
    using upload_lenient_only_for_500 [OF a b c, of png2 "''p1''" "''a.png''" "''u1''"] a b c d
    by simp
qed

text \<open>
  Claim C5 as stated fails for a failure status other than 500: a 404 response with a
  non-empty body is reported as a failure.
\<close>

theorem upload_404_with_body_counterexample:
  "\<not> ok response_404
   \<and> text_r response_404 = Resolves ''webhook not registered''
   \<and> fst (uploadDocumentToN8n env_404 png2 ''p1'' ''a.png'' ''u1'') =
       Resolves \<lparr>success = False, response = None,
                 error = Some (msg_file_upload_failed @ '': 404 Not Found'')\<rparr>"
  by (simp add: uploadDocumentToN8n_def uploadDocumentToN8n_try_def failed_def Let_def
        env_404_def env_ok_def response_404_def show_nat_examples)

section \<open>The chat call\<close>

text \<open>
  Claim C10. When the chat request gets a response that is not ok, \<open>callN8nRAGAgent\<close>
  returns a result with \<open>success = false\<close> whose error message is the fixed prefix, the
  status code in decimal, a space and the status text, whatever the body is. For such a
  response with status 500 and a readable non-empty body the ingestion call returns
  success, the chat call does not.
\<close>

theorem chat_not_ok_is_failure:
  assumes "import_supabase e = Resolves u" and "auth_getUser e = Resolves (Some user)"
    and "fetch e = Resolves r" and "\<not> ok r"
  shows "fst (callN8nRAGAgent e chatInput projectId) =
           Resolves \<lparr>success = False, response = None,
                     error = Some (msg_n8n_call_failed @ show_nat (status_r r) @ '' ''
                                   @ statusText r)\<rparr>
         \<and> (status_r r = 500 \<and> text_r r = Resolves body \<and> body \<noteq> [] \<longrightarrow>
              fst (uploadDocumentToN8n e f projectId' t userId) =
                Resolves \<lparr>success = True, response = Some (JString body), error = None\<rparr>)"
  using assms
  by (simp add: callN8nRAGAgent_def callN8nRAGAgent_try_def uploadDocumentToN8n_def
        uploadDocumentToN8n_try_def failed_def Let_def)

theorem chat_not_ok_is_failure_witness:
  "import_supabase env_500 = Resolves ()
   \<and> auth_getUser env_500 = Resolves (Some \<lparr>id_user = ''u1''\<rparr>)
   \<and> fetch env_500 = Resolves response_500
   \<and> \<not> ok response_500
   \<and> fst (callN8nRAGAgent env_500 ''hello'' (OneProject ''p1'')) =
       Resolves \<lparr>success = False, response = None,
                 error = Some (msg_n8n_call_failed @ ''500 Internal Server Error'')\<rparr>
   \<and> fst (uploadDocumentToN8n env_500 png2 ''p1'' ''a.png'' ''u1'') =
       Resolves \<lparr>success = True, response = Some (JString ''Workflow executed''),
                 error = None\<rparr>"
proof -
  have a: "import_supabase env_500 = Resolves ()"
    by (simp add: env_500_def env_ok_def)
  have b: "auth_getUser env_500 = Resolves (Some \<lparr>id_user = ''u1''\<rparr>)"
    by (simp add: env_500_def env_ok_def)
  have c: "fetch env_500 = Resolves response_500"
    by (simp add: env_500_def env_ok_def)
  have d: "\<not> ok response_500"
    by (simp add: response_500_def)
  have s: "status_r response_500 = 500" "statusText response_500 = ''Internal Server Error''"
     "text_r response_500 = Resolves ''Workflow executed''"
    by (simp_all add: response_500_def)
  show ?thesis
    using chat_not_ok_is_failure [OF a b c d, of "''hello''" "OneProject ''p1''"
            "''Workflow executed''" png2 "''p1''" "''a.png''" "''u1''"]
          a b c d s
    by (simp add: show_nat_examples)
qed

section \<open>Calls without a signed-in user\<close>

text \<open>
  Claim C9, as amended. When the identity provider resolves no user, none of the chat
  call, the project listing and the record save makes a call that needs the identity (the
  webhook request, the projects query, the insert): each stops after the identity lookup.
  The chat call reports this to its caller, as the result with \<open>success = false\<close> and the
  message "the user is not logged in". The project listing resolves with the empty list and
  the record save resolves normally: these two report no failure to their caller.
\<close>

theorem signed_out_stops_before_identity_calls:
  assumes "import_supabase e = Resolves u" and "auth_getUser e = Resolves None"
  shows "callN8nRAGAgent e chatInput projectId =
           (Resolves \<lparr>success = False, response = None, error = Some msg_not_logged_in\<rparr>,
            [ImportSupabase, AuthGetUser])
         \<and> getUserProjects e = (Resolves [], [ImportSupabase, AuthGetUser])
         \<and> saveChatRecord e userMessage aiResponse projectId =
             (Resolves (), [ImportSupabase, AuthGetUser])
         \<and> list_all (\<lambda>c. \<not> needs_identity c) (snd (callN8nRAGAgent e chatInput projectId))
         \<and> list_all (\<lambda>c. \<not> needs_identity c) (snd (getUserProjects e))
         \<and> list_all (\<lambda>c. \<not> needs_identity c)
              (snd (saveChatRecord e userMessage aiResponse projectId))"
  using assms
  by (simp add: callN8nRAGAgent_def callN8nRAGAgent_try_def getUserProjects_def
        getUserProjects_try_def saveChatRecord_def saveChatRecord_try_def failed_def)

theorem signed_out_stops_before_identity_calls_witness:
  "import_supabase env_signed_out = Resolves ()
   \<and> auth_getUser env_signed_out = Resolves None
   \<and> callN8nRAGAgent env_signed_out ''hello'' (OneProject ''p1'') =
           (Resolves \<lparr>success = False, response = None, error = Some msg_not_logged_in\<rparr>,
            [ImportSupabase, AuthGetUser])"
proof -
  have a: "import_supabase env_signed_out = Resolves ()"
    by (simp add: env_signed_out_def env_ok_def)
  have b: "auth_getUser env_signed_out = Resolves None"
    by (simp add: env_signed_out_def env_ok_def)
  show ?thesis
    using signed_out_stops_before_identity_calls [OF a b, of "''hello''" "OneProject ''p1''"] a b
    by simp
qed

text \<open>
  Claim C9 as stated fails for the project listing and the record save: without a user
  they resolve normally, the listing with the same empty list a signed-in user without
  projects gets.
\<close>

theorem signed_out_listing_and_save_counterexample:
  "auth_getUser env_signed_out = Resolves None
   \<and> fst (getUserProjects env_signed_out) = Resolves []
   \<and> fst (getUserProjects env_ok) = Resolves []
   \<and> fst (saveChatRecord env_signed_out ''hello'' ''hi'' (OneProject ''p1'')) = Resolves ()"
  by (simp add: getUserProjects_def getUserProjects_try_def saveChatRecord_def
        saveChatRecord_try_def env_signed_out_def env_ok_def)

end
